theory Spec2Isabelle
  imports Complex_Main "HOL-Library.Monad_Syntax"
begin

section \<open>Deconvolution.cpp: conventions of the embedding\<close>

text \<open>
  The C++ \<open>float\<close> samples and scalars are idealised as \<^typ>\<open>real\<close>: rounding, infinities
  and NaN are not modelled, and a decimal literal such as \<open>0.1f\<close> is the rational it denotes.
  The C++ \<open>int\<close> coordinates and sizes are \<^typ>\<open>int\<close>; image sizes are taken to be far
  below \<open>2^31\<close>, so no index computation wraps. C++ integer division \<open>/\<close> on the
  non-negative sizes that occur is \<open>div\<close>.
\<close>

datatype error =
    PreconditionError   \<comment> \<open>a failed \<open>assert(cond, msg)\<close> of the solvers\<close>
  | OutOfBounds         \<comment> \<open>a read or write outside the buffer of an image\<close>

section \<open>Images and their buffers\<close>

text \<open>
  Modelled from the spec: the \<open>Image\<close> and \<open>Window\<close> classes are declared in
  \<open>main.h\<close>, which is not among the sources. An Image is "a 4-dimensional dense array
  (width \<times> height \<times> frames \<times> channels) of floating-point samples"; \<open>im(x, y, t)\<close> points
  at the first channel of a pixel and \<open>im(x, y, t)[c]\<close> is the sample \<open>c\<close> floats further,
  the layout that the \<open>memcpy\<close> calls of \<open>applyPadding\<close> rely on (a row is
  \<open>channels * width\<close> consecutive floats). \<open>im(x, y)\<close> is \<open>im(x, y, 0)\<close>. A freshly
  constructed \<open>Image(w, h, f, c)\<close> holds zeros (the stencils of the solvers set only the
  non-zero coefficients).

  The buffer is a function from the offset (in floats) to the sample. Only the offsets
  \<open>0 \<le> i < width * height * frames * channels\<close> exist: a read or write at any other offset
  is outside the allocation and is the failure \<open>None\<close> of the memory operations below.
\<close>

type_synonym buffer = "int \<Rightarrow> real"

record image =
  width :: int
  height :: int
  frames :: int
  channels :: int
  data :: buffer

definition samples :: "image \<Rightarrow> int" where
  "samples im = width im * height im * frames im * channels im"

definition in_buffer :: "image \<Rightarrow> int \<Rightarrow> bool" where
  "in_buffer im i \<longleftrightarrow> 0 \<le> i \<and> i < samples im"

definition offset :: "image \<Rightarrow> int \<Rightarrow> int \<Rightarrow> int \<Rightarrow> int \<Rightarrow> int" where
  "offset im x y t c = ((t * height im + y) * width im + x) * channels im + c"

text \<open>The coordinates of the sample at an offset.\<close>

definition chan_of :: "image \<Rightarrow> int \<Rightarrow> int" where
  "chan_of im i = i mod channels im"

definition x_of :: "image \<Rightarrow> int \<Rightarrow> int" where
  "x_of im i = (i div channels im) mod width im"

definition y_of :: "image \<Rightarrow> int \<Rightarrow> int" where
  "y_of im i = (i div channels im div width im) mod height im"

definition t_of :: "image \<Rightarrow> int \<Rightarrow> int" where
  "t_of im i = i div channels im div width im div height im"

definition Image :: "int \<Rightarrow> int \<Rightarrow> int \<Rightarrow> int \<Rightarrow> image" where
  "Image w h f c = \<lparr>width = w, height = h, frames = f, channels = c, data = (\<lambda>i. 0)\<rparr>"

text \<open>
  The memory operations. The image \<open>im\<close> gives the shape of the buffer; \<open>m\<close> is the
  current content of the buffer (\<open>rd im m x y t c\<close> is the read \<open>im(x, y, t)[c]\<close>,
  \<open>wr im m x y t c v\<close> the assignment \<open>im(x, y, t)[c] = v\<close>).
\<close>

definition rd :: "image \<Rightarrow> buffer \<Rightarrow> int \<Rightarrow> int \<Rightarrow> int \<Rightarrow> int \<Rightarrow> real option" where
  "rd im m x y t c =
     (if in_buffer im (offset im x y t c) then Some (m (offset im x y t c)) else None)"

definition wr :: "image \<Rightarrow> buffer \<Rightarrow> int \<Rightarrow> int \<Rightarrow> int \<Rightarrow> int \<Rightarrow> real \<Rightarrow> buffer option" where
  "wr im m x y t c v =
     (if in_buffer im (offset im x y t c) then Some (m(offset im x y t c := v)) else None)"

text \<open>
  \<open>memcpy(dst, src, sizeof(float) * n)\<close> on two pointers into the buffer, given as offsets.
  Both ranges must lie inside the buffer and must not overlap.
\<close>

definition memcpy :: "image \<Rightarrow> buffer \<Rightarrow> int \<Rightarrow> int \<Rightarrow> int \<Rightarrow> buffer option" where
  "memcpy im m dst src n =
     (if n \<le> 0 then Some m
      else if 0 \<le> dst \<and> dst + n \<le> samples im \<and> 0 \<le> src \<and> src + n \<le> samples im
              \<and> (dst + n \<le> src \<or> src + n \<le> dst)
      then Some (\<lambda>i. if dst \<le> i \<and> i < dst + n then m (src + (i - dst)) else m i)
      else None)"

text \<open>
  \<open>for (int i = lo; i < hi; i++) body\<close>, where the body never changes \<open>i\<close>, \<open>lo\<close>
  or \<open>hi\<close>: the body runs for \<open>lo, lo + 1, ..., hi - 1\<close> and the first failure ends the run.
\<close>

primrec iterate :: "int list \<Rightarrow> (int \<Rightarrow> 's \<Rightarrow> 's option) \<Rightarrow> 's \<Rightarrow> 's option" where
  "iterate [] body s = Some s"
| "iterate (i # is) body s = (case body i s of None \<Rightarrow> None | Some s' \<Rightarrow> iterate is body s')"

definition for_loop :: "int \<Rightarrow> int \<Rightarrow> (int \<Rightarrow> 's \<Rightarrow> 's option) \<Rightarrow> 's \<Rightarrow> 's option" where
  "for_loop lo hi body s = iterate [lo..hi - 1] body s"

section \<open>The collaborators outside Deconvolution.cpp\<close>

text \<open>
  The numeric services the file calls (\<open>DFT.h\<close>, \<open>Geometry.h\<close>, \<open>Color.h\<close>,
  \<open>KernelEstimation.h\<close>, \<open>Arithmetic.h\<close>, \<open>Complex.h\<close>, \<open>File.h\<close>) are not among
  the sources. What a service computes for the samples is a parameter of the model, collected
  in the record below; the shape of what it returns is fixed by its wrapper.
\<close>

datatype boundary = Clamp | Wrap

record externals =
  crop_fill :: "image \<Rightarrow> int \<Rightarrow> int \<Rightarrow> int \<Rightarrow> int \<Rightarrow> real"
    \<comment> \<open>the sample \<open>Crop\<close> gives to a coordinate outside its source\<close>
  fft_samples :: "image \<Rightarrow> buffer"
    \<comment> \<open>the buffer after \<open>FFT::apply(im, true, true, false)\<close>\<close>
  ifft_samples :: "image \<Rightarrow> buffer"
    \<comment> \<open>the buffer after \<open>IFFT::apply(im, true, true, false)\<close>\<close>
  enlarged_kernel_samples :: "image \<Rightarrow> int \<Rightarrow> int \<Rightarrow> buffer"
  luma_samples :: "image \<Rightarrow> buffer"
  convolve_samples :: "image \<Rightarrow> image \<Rightarrow> boundary \<Rightarrow> buffer"
  initial_L_samples :: buffer
    \<comment> \<open>the samples of \<open>Image L\<close> before the first round assigns it\<close>

text \<open>
  Modelled from the spec: \<open>Crop::apply\<close> (\<open>Geometry.h\<close>), "crop/pad-with-offset over a
  dense array with configurable out-of-range fill". The result has the requested width,
  height and frame count and the channels of the source; the sample at \<open>(x, y, t)\<close> is the
  source's sample at \<open>(x + minX, y + minY, t + minT)\<close> where the source has one.
\<close>

definition Crop_apply ::
  "externals \<Rightarrow> image \<Rightarrow> int \<Rightarrow> int \<Rightarrow> int \<Rightarrow> int \<Rightarrow> int \<Rightarrow> int \<Rightarrow> image" where
  "Crop_apply E im minX minY minT w h f =
     (let out = Image w h f (channels im)
      in out\<lparr>data := (\<lambda>i.
           let x = x_of out i + minX; y = y_of out i + minY; t = t_of out i + minT;
               c = chan_of out i
           in if 0 \<le> x \<and> x < width im \<and> 0 \<le> y \<and> y < height im \<and> 0 \<le> t \<and> t < frames im
              then data im (offset im x y t c)
              else crop_fill E im x y t c)\<rparr>)"

text \<open>The overload without frame arguments keeps all frames of the source.\<close>

definition Crop_apply4 :: "externals \<Rightarrow> image \<Rightarrow> int \<Rightarrow> int \<Rightarrow> int \<Rightarrow> int \<Rightarrow> image" where
  "Crop_apply4 E im minX minY w h = Crop_apply E im minX minY 0 w h (frames im)"


section \<open>applyPadding (lines 363-449)\<close>

text \<open>Lines 365-371: the margin sizes.\<close>

definition padding_alpha :: "image \<Rightarrow> int" where
  "padding_alpha B =
     (let alpha = 1;
          alpha = (if width B div 3 < alpha then width B div 3 else alpha);
          alpha = (if height B div 3 < alpha then height B div 3 else alpha)
      in alpha)"

definition x_padding_of :: "image \<Rightarrow> int" where
  "x_padding_of B =
     (let x_padding = width B div 2
      in if x_padding < padding_alpha B * 3 then padding_alpha B * 3 else x_padding)"

definition y_padding_of :: "image \<Rightarrow> int" where
  "y_padding_of B =
     (let y_padding = height B div 2
      in if y_padding < padding_alpha B * 3 then padding_alpha B * 3 else y_padding)"

text \<open>
  The loops work on the buffer of \<open>ret\<close> and on the array \<open>prev\<close> of \<open>B.channels\<close>
  floats; the state is the pair of the two contents. \<open>prev[c]\<close> is only used with
  \<open>0 \<le> c < B.channels\<close>, inside its allocation.
\<close>

type_synonym pad_state = "buffer \<times> buffer"

text \<open>Lines 379-385: populate the top 'A' region, one iteration of the loop over \<open>y\<close>.\<close>

definition top_region_row ::
  "image \<Rightarrow> int \<Rightarrow> int \<Rightarrow> int \<Rightarrow> image \<Rightarrow> int \<Rightarrow> int \<Rightarrow> pad_state \<Rightarrow> pad_state option" where
  "top_region_row B alpha x_padding y_padding ret t y s =
     (case s of (m, prev) \<Rightarrow> do {
        let realy = y;
        m \<leftarrow> memcpy ret m (offset ret x_padding realy t 0)
               (offset ret x_padding (y - alpha + height B + y_padding) t 0)
               (channels B * width B);
        m \<leftarrow> memcpy ret m (offset ret x_padding (y_padding - alpha + realy) t 0)
               (offset ret x_padding (y + y_padding) t 0)
               (channels B * width B);
        Some (m, prev)
      })"

text \<open>Lines 386-404: one iteration of the loop that interpolates and blurs a row.\<close>

definition interpolate_row ::
  "image \<Rightarrow> int \<Rightarrow> int \<Rightarrow> int \<Rightarrow> image \<Rightarrow> int \<Rightarrow> int \<Rightarrow> pad_state \<Rightarrow> pad_state option" where
  "interpolate_row B alpha x_padding y_padding ret t y s = do {
     let weight = 1 / real_of_int (y_padding - alpha - (y - 1));
     s \<leftarrow> for_loop x_padding (x_padding + width B) (\<lambda>x.
            for_loop 0 (channels B) (\<lambda>c s. case s of (m, prev) \<Rightarrow> do {
              a \<leftarrow> rd ret m x (y - 1) t c;
              b \<leftarrow> rd ret m x (y_padding - alpha) t c;
              m \<leftarrow> wr ret m x y t c (a * (1 - weight) + b * weight);
              Some (m, prev)
            })) s;
     s \<leftarrow> for_loop 0 (channels B) (\<lambda>c s. case s of (m, prev) \<Rightarrow> do {
            a \<leftarrow> rd ret m x_padding y t c;
            Some (m, prev(c := a))
          }) s;
     let wing = 1 / 10 + 2 / 10
                  * (1 - \<bar>real_of_int y_padding * (1 / 2) - real_of_int y\<bar>
                         / (real_of_int y_padding * (1 / 2)));
     let center = 1 - wing * 2;
     for_loop x_padding (x_padding + width B - 1) (\<lambda>x.
       for_loop 0 (channels B) (\<lambda>c s. case s of (m, prev) \<Rightarrow> do {
         tmp \<leftarrow> rd ret m x y t c;
         b \<leftarrow> rd ret m (x + 1) y t c;
         m \<leftarrow> wr ret m x y t c (prev c * wing + b * wing + tmp * center);
         Some (m, prev(c := tmp))
       })) s
   }"

text \<open>Lines 410-418: the first two strips of the left 'C-B-C' region.\<close>

definition left_region_strips ::
  "image \<Rightarrow> int \<Rightarrow> int \<Rightarrow> int \<Rightarrow> image \<Rightarrow> int \<Rightarrow> pad_state \<Rightarrow> pad_state option" where
  "left_region_strips B alpha x_padding y_padding ret t s =
     for_loop 0 (height B + y_padding * 2) (\<lambda>y.
       for_loop 0 alpha (\<lambda>x.
         let realx = x in
         for_loop 0 (channels B) (\<lambda>c s. case s of (m, prev) \<Rightarrow> do {
           a \<leftarrow> rd ret m (width B + x_padding - alpha + x) y t c;
           m \<leftarrow> wr ret m realx y t c a;
           b \<leftarrow> rd ret m (x_padding + x) y t c;
           m \<leftarrow> wr ret m (x_padding - alpha + realx) y t c b;
           Some (m, prev)
         }))) s"

text \<open>Lines 419-439: one iteration of the loop that interpolates and blurs a column.\<close>

definition interpolate_column ::
  "image \<Rightarrow> int \<Rightarrow> int \<Rightarrow> int \<Rightarrow> image \<Rightarrow> int \<Rightarrow> int \<Rightarrow> pad_state \<Rightarrow> pad_state option" where
  "interpolate_column B alpha x_padding y_padding ret t x s = do {
     let weight = 1 / real_of_int (x_padding - alpha - (x - 1));
     s \<leftarrow> for_loop 0 (height B + y_padding * 2) (\<lambda>y.
            for_loop 0 (channels B) (\<lambda>c s. case s of (m, prev) \<Rightarrow> do {
              a \<leftarrow> rd ret m (x - 1) y t c;
              b \<leftarrow> rd ret m (x_padding - alpha) y t c;
              m \<leftarrow> wr ret m x y t c (a * (1 - weight) + b * weight);
              Some (m, prev)
            })) s;
     s \<leftarrow> for_loop 0 (channels B) (\<lambda>c s. case s of (m, prev) \<Rightarrow> do {
            a \<leftarrow> rd ret m x 0 t c;
            Some (m, prev(c := a))
          }) s;
     let wing = 1 / 10 + 2 / 10
                  * (1 - \<bar>real_of_int x_padding * (1 / 2) - real_of_int x\<bar>
                         / (real_of_int x_padding * (1 / 2)));
     let center = 1 - wing * 2;
     for_loop 0 (height B + y_padding * 2 - 1) (\<lambda>y.
       for_loop 0 (channels B) (\<lambda>c s. case s of (m, prev) \<Rightarrow> do {
         tmp \<leftarrow> rd ret m x y t c;
         b \<leftarrow> rd ret m x (y + 1) t c;
         m \<leftarrow> wr ret m x y t c (prev c * wing + b * wing + tmp * center);
         Some (m, prev(c := tmp))
       })) s
   }"

text \<open>Lines 441-443: populate the right 'C-B-C' region.\<close>

definition right_region ::
  "image \<Rightarrow> int \<Rightarrow> int \<Rightarrow> int \<Rightarrow> image \<Rightarrow> int \<Rightarrow> pad_state \<Rightarrow> pad_state option" where
  "right_region B alpha x_padding y_padding ret t s =
     for_loop 0 (height B + y_padding * 2) (\<lambda>y s. case s of (m, prev) \<Rightarrow> do {
       m \<leftarrow> memcpy ret m (offset ret (width B + x_padding) y t 0) (offset ret 0 y t 0)
              (channels B * x_padding);
       Some (m, prev)
     }) s"

text \<open>
  Lines 406-444: one iteration of the loop that populates the bottom 'A' region. The brace
  opened at line 406 is closed at line 444, so each iteration copies one row to the bottom
  and then runs the whole of the left and right passes.
\<close>

definition bottom_region_row ::
  "image \<Rightarrow> int \<Rightarrow> int \<Rightarrow> int \<Rightarrow> image \<Rightarrow> int \<Rightarrow> int \<Rightarrow> pad_state \<Rightarrow> pad_state option" where
  "bottom_region_row B alpha x_padding y_padding ret t y s =
     (case s of (m, prev) \<Rightarrow> do {
        m \<leftarrow> memcpy ret m (offset ret x_padding (y + height B + y_padding) t 0)
               (offset ret x_padding y t 0)
               (channels B * width B);
        s \<leftarrow> left_region_strips B alpha x_padding y_padding ret t (m, prev);
        s \<leftarrow> for_loop alpha (x_padding - alpha)
               (interpolate_column B alpha x_padding y_padding ret t) s;
        right_region B alpha x_padding y_padding ret t s
      })"

text \<open>Lines 377-445: the body of the loop over the frames.\<close>

definition padding_frame ::
  "image \<Rightarrow> int \<Rightarrow> int \<Rightarrow> int \<Rightarrow> image \<Rightarrow> int \<Rightarrow> pad_state \<Rightarrow> pad_state option" where
  "padding_frame B alpha x_padding y_padding ret t s = do {
     s \<leftarrow> for_loop 0 alpha (top_region_row B alpha x_padding y_padding ret t) s;
     s \<leftarrow> for_loop alpha (y_padding - alpha)
            (interpolate_row B alpha x_padding y_padding ret t) s;
     for_loop 0 y_padding (bottom_region_row B alpha x_padding y_padding ret t) s
   }"

text \<open>
  Lines 373-376: the enlarged canvas, with the source at \<open>(x_padding, y_padding)\<close>. The
  content of the fresh array \<open>prev\<close> is never read before it is written; it starts as zeros
  here.
\<close>

definition padding_canvas :: "externals \<Rightarrow> image \<Rightarrow> image" where
  "padding_canvas E B =
     Crop_apply E B (- x_padding_of B) (- y_padding_of B) 0
       (width B + x_padding_of B * 2) (height B + y_padding_of B * 2) (frames B)"

definition applyPadding :: "externals \<Rightarrow> image \<Rightarrow> error + image" where
  "applyPadding E B =
     (let alpha = padding_alpha B;
          x_padding = x_padding_of B;
          y_padding = y_padding_of B;
          ret = padding_canvas E B
      in case for_loop 0 (frames B) (padding_frame B alpha x_padding y_padding ret)
                (data ret, (\<lambda>c. 0)) of
           None \<Rightarrow> Inl OutOfBounds
         | Some (m, prev) \<Rightarrow>
             Inr (Crop_apply E (ret\<lparr>data := m\<rparr>) (x_padding div 2) (y_padding div 2) 0
                    (width B + x_padding) (height B + y_padding) (frames B)))"

section \<open>Elementwise and complex services\<close>

text \<open>
  Modelled from the spec: the operations of \<open>Arithmetic.h\<close>, \<open>Complex.h\<close>, \<open>DFT.h\<close>,
  \<open>Geometry.h\<close>, \<open>Color.h\<close>, \<open>KernelEstimation.h\<close> and \<open>File.h\<close> that the solvers
  call. A frequency-domain image is "an Image whose last channel dimension is exactly 2,
  holding (real, imaginary) interleaved per logical complex element": the complex element
  that contains the float at offset \<open>i\<close> has its real part at \<open>i - i mod 2\<close> and its
  imaginary part one float further. The operations that work in place on their first
  argument return the new image here.
\<close>

definition re_at :: "image \<Rightarrow> int \<Rightarrow> real" where
  "re_at im i = data im (i - i mod 2)"

definition im_at :: "image \<Rightarrow> int \<Rightarrow> real" where
  "im_at im i = data im (i - i mod 2 + 1)"

definition interleave :: "(int \<Rightarrow> real) \<Rightarrow> (int \<Rightarrow> real) \<Rightarrow> buffer" where
  "interleave re im = (\<lambda>i. if i mod 2 = 0 then re i else im i)"

text \<open>Modelled from the spec: the complex element of the pixel \<open>(x, y, t)\<close> of a frequency-domain image.\<close>

definition cplx :: "image \<Rightarrow> int \<Rightarrow> int \<Rightarrow> int \<Rightarrow> complex" where
  "cplx im x y t = Complex (data im (offset im x y t 0)) (data im (offset im x y t 1))"

text \<open>
  Modelled from the spec: \<open>ComplexMultiply::apply(a, b, conj)\<close> and
  \<open>ComplexConjugate::apply\<close>; "elementwise complex multiply", of \<open>a\<close> by \<open>b\<close>
  or, with the flag set, by the conjugate of \<open>b\<close>.
\<close>

definition ComplexMultiply_apply :: "image \<Rightarrow> image \<Rightarrow> bool \<Rightarrow> image" where
  "ComplexMultiply_apply a b conjugate =
     (if conjugate
      then a\<lparr>data := interleave
             (\<lambda>i. re_at a i * re_at b i + im_at a i * im_at b i)
             (\<lambda>i. im_at a i * re_at b i - re_at a i * im_at b i)\<rparr>
      else a\<lparr>data := interleave
             (\<lambda>i. re_at a i * re_at b i - im_at a i * im_at b i)
             (\<lambda>i. re_at a i * im_at b i + im_at a i * re_at b i)\<rparr>)"

definition ComplexConjugate_apply :: "image \<Rightarrow> image" where
  "ComplexConjugate_apply a = a\<lparr>data := interleave (\<lambda>i. re_at a i) (\<lambda>i. - im_at a i)\<rparr>"

text \<open>
  Modelled from the spec: \<open>ComplexDivide::apply(a, b, conj)\<close>, "elementwise complex
  divide". Only \<open>conj = false\<close> is used. A quotient with denominator 0 has the value 0
  of division in \<^typ>\<open>real\<close>.
\<close>

definition ComplexDivide_apply :: "image \<Rightarrow> image \<Rightarrow> bool \<Rightarrow> image" where
  "ComplexDivide_apply a b conjugate =
     (if conjugate
      then a\<lparr>data := interleave
             (\<lambda>i. (re_at a i * re_at b i - im_at a i * im_at b i)
                   / (re_at b i * re_at b i + im_at b i * im_at b i))
             (\<lambda>i. (im_at a i * re_at b i + re_at a i * im_at b i)
                   / (re_at b i * re_at b i + im_at b i * im_at b i))\<rparr>
      else a\<lparr>data := interleave
             (\<lambda>i. (re_at a i * re_at b i + im_at a i * im_at b i)
                   / (re_at b i * re_at b i + im_at b i * im_at b i))
             (\<lambda>i. (im_at a i * re_at b i - re_at a i * im_at b i)
                   / (re_at b i * re_at b i + im_at b i * im_at b i))\<rparr>)"

text \<open>
  Modelled from the spec: \<open>ComplexReal::apply\<close>, "extract real part", and
  \<open>RealComplex::apply\<close>, a real image as a complex one.
\<close>

definition ComplexReal_apply :: "image \<Rightarrow> image" where
  "ComplexReal_apply a = a\<lparr>channels := 1, data := (\<lambda>i. data a (2 * i))\<rparr>"

definition RealComplex_apply :: "image \<Rightarrow> image" where
  "RealComplex_apply a =
     a\<lparr>channels := 2, data := (\<lambda>i. if i mod 2 = 0 then data a (i div 2) else 0)\<rparr>"

text \<open>Modelled from the spec: \<open>Transpose::apply(im, 'c', 't')\<close>; the channel and frame dimensions change places.\<close>

definition Transpose_apply_c_t :: "image \<Rightarrow> image" where
  "Transpose_apply_c_t a =
     (let out = a\<lparr>frames := channels a, channels := frames a\<rparr>
      in out\<lparr>data := (\<lambda>i. data a (offset a (x_of out i) (y_of out i) (chan_of out i)
                                         (t_of out i)))\<rparr>)"

text \<open>
  Modelled from the spec: \<open>Add::apply(a, b)\<close>, \<open>Add::apply(a, b, w)\<close>, \<open>Subtract\<close>,
  \<open>Multiply\<close> (elementwise), \<open>Scale\<close>, \<open>Offset\<close> and \<open>Threshold\<close>, sample by sample.
\<close>

definition Add_apply :: "image \<Rightarrow> image \<Rightarrow> image" where
  "Add_apply a b = a\<lparr>data := (\<lambda>i. data a i + data b i)\<rparr>"

definition Add_apply_weighted :: "image \<Rightarrow> image \<Rightarrow> real \<Rightarrow> image" where
  "Add_apply_weighted a b w = a\<lparr>data := (\<lambda>i. data a i + w * data b i)\<rparr>"

definition Subtract_apply :: "image \<Rightarrow> image \<Rightarrow> image" where
  "Subtract_apply a b = a\<lparr>data := (\<lambda>i. data a i - data b i)\<rparr>"

definition Multiply_apply_Elementwise :: "image \<Rightarrow> image \<Rightarrow> image" where
  "Multiply_apply_Elementwise a b = a\<lparr>data := (\<lambda>i. data a i * data b i)\<rparr>"

definition Scale_apply :: "image \<Rightarrow> real \<Rightarrow> image" where
  "Scale_apply a w = a\<lparr>data := (\<lambda>i. data a i * w)\<rparr>"

definition Offset_apply :: "image \<Rightarrow> real \<Rightarrow> image" where
  "Offset_apply a v = a\<lparr>data := (\<lambda>i. data a i + v)\<rparr>"

definition Threshold_apply :: "image \<Rightarrow> real \<Rightarrow> image" where
  "Threshold_apply a v = a\<lparr>data := (\<lambda>i. if data a i > v then 1 else 0)\<rparr>"

text \<open>
  Modelled from the spec: the transforms, the kernel enlargement, the luma conversion and
  the convolution give images of the documented shape; their samples are parameters.
\<close>

definition FFT_apply :: "externals \<Rightarrow> image \<Rightarrow> image" where
  "FFT_apply E a = a\<lparr>data := fft_samples E a\<rparr>"

definition IFFT_apply :: "externals \<Rightarrow> image \<Rightarrow> image" where
  "IFFT_apply E a = a\<lparr>data := ifft_samples E a\<rparr>"

definition EnlargeKernel :: "externals \<Rightarrow> image \<Rightarrow> int \<Rightarrow> int \<Rightarrow> image" where
  "EnlargeKernel E K w h =
     \<lparr>width = w, height = h, frames = 1, channels = 2, data = enlarged_kernel_samples E K w h\<rparr>"

definition ColorConvert_apply_rgb_y :: "externals \<Rightarrow> image \<Rightarrow> image" where
  "ColorConvert_apply_rgb_y E a = a\<lparr>channels := 1, data := luma_samples E a\<rparr>"

definition Convolve_apply :: "externals \<Rightarrow> image \<Rightarrow> image \<Rightarrow> boundary \<Rightarrow> image" where
  "Convolve_apply E a flt b = a\<lparr>data := convolve_samples E a flt b\<rparr>"

text \<open>
  Modelled from the spec: \<open>FileTMP::save(im, name, "float")\<close>; the checkpoint files are "write-only debug artifacts";
  the model keeps the list of the files written, in order.
\<close>

type_synonym files = "(string \<times> image) list"

definition FileTMP_save :: "image \<Rightarrow> string \<Rightarrow> files \<Rightarrow> files" where
  "FileTMP_save im name fs = fs @ [(name, im)]"

section \<open>applyCho2009 (lines 451-551)\<close>

text \<open>
  Lines 488-516: the \<open>switch\<close> of the loop over the six derivative filters. For each \<open>i\<close>
  it gives the weight \<open>w_i\<close> and assigns the coefficients of the stencil to channel 0 of
  \<open>FDeriv(x, y, 0)\<close>; a tap is \<open>((x, y), coefficient)\<close>, in the order of the assignments.
  There is no case for another \<open>i\<close>, and the loop has none.
\<close>

type_synonym tap = "(int \<times> int) \<times> real"

definition Cho_w :: "int \<Rightarrow> real" where
  "Cho_w i =
     (if i = 0 then 50
      else if i = 1 then 25
      else if i = 2 then 125 / 10
      else if i = 3 then 25
      else if i = 4 then 125 / 10
      else if i = 5 then 125 / 10
      else 0)"

definition Cho_taps :: "int \<Rightarrow> tap list" where
  "Cho_taps i =
     (if i = 0 then [((0, 0), 1)]
      else if i = 1 then [((0, 0), - 1), ((1, 0), 1)]
      else if i = 2 then [((0, 0), 1), ((1, 0), - 2), ((2, 0), 1)]
      else if i = 3 then [((0, 0), - 1), ((0, 1), 1)]
      else if i = 4 then [((0, 0), 1), ((0, 1), - 2), ((0, 2), 1)]
      else if i = 5 then [((0, 0), 1), ((1, 0), - 1), ((0, 1), - 1), ((1, 1), 1)]
      else [])"

text \<open>The assignments \<open>FDeriv(x, y, 0)[0] = v\<close> of one case, in order.\<close>

primrec assign_taps :: "image \<Rightarrow> tap list \<Rightarrow> buffer \<Rightarrow> buffer option" where
  "assign_taps FDeriv [] m = Some m"
| "assign_taps FDeriv (p # ps) m =
     (case wr FDeriv m (fst (fst p)) (snd (fst p)) 0 0 (snd p) of
        None \<Rightarrow> None
      | Some m' \<Rightarrow> assign_taps FDeriv ps m')"

text \<open>Lines 487-517: the stencil of filter \<open>i\<close> on a zeroed canvas, then its transform.\<close>

definition Cho_FDeriv :: "externals \<Rightarrow> int \<Rightarrow> int \<Rightarrow> int \<Rightarrow> image option" where
  "Cho_FDeriv E w h i =
     (let FDeriv = Image w h 1 2
      in do {
        m \<leftarrow> assign_taps FDeriv (Cho_taps i) (data FDeriv);
        Some (FFT_apply E (FDeriv\<lparr>data := m\<rparr>))
      })"

text \<open>The transform of filter \<open>i\<close>, where the assignments stay inside the canvas.\<close>

definition Cho_D :: "externals \<Rightarrow> int \<Rightarrow> int \<Rightarrow> int \<Rightarrow> image" where
  "Cho_D E w h i = the (Cho_FDeriv E w h i)"

text \<open>Lines 485-524: one iteration of the loop; the state is \<open>(SumDeriv, SumGrad)\<close>.\<close>

definition Cho_filter_step ::
  "externals \<Rightarrow> image \<Rightarrow> int \<Rightarrow> image \<times> image \<Rightarrow> (image \<times> image) option" where
  "Cho_filter_step E B i s =
     (case s of (SumDeriv, SumGrad) \<Rightarrow> do {
        FDeriv \<leftarrow> Cho_FDeriv E (width B) (height B) i;
        let FDeriv2 = ComplexMultiply_apply FDeriv FDeriv True;
        let SumGrad = (if i = 1 \<or> i = 3 then Add_apply SumGrad FDeriv2 else SumGrad);
        let FDeriv2 = Scale_apply FDeriv2 (Cho_w i);
        Some (Add_apply SumDeriv FDeriv2, SumGrad)
      })"

text \<open>
  Lines 536-544: the pixel loop that multiplies \<open>FB\<close>, frame by frame, by the one frame of
  \<open>FK\<close>. The state is the buffer of \<open>FB\<close>.
\<close>

definition Cho_multiply_pixel :: "image \<Rightarrow> image \<Rightarrow> int \<Rightarrow> int \<Rightarrow> int \<Rightarrow> buffer \<Rightarrow> buffer option" where
  "Cho_multiply_pixel FB FK t y x m = do {
     FB0 \<leftarrow> rd FB m x y t 0;
     FK0 \<leftarrow> rd FK (data FK) x y 0 0;
     FB1 \<leftarrow> rd FB m x y t 1;
     FK1 \<leftarrow> rd FK (data FK) x y 0 1;
     let tmp = FB0 * FK0 - FB1 * FK1;
     m \<leftarrow> wr FB m x y t 1 (FB0 * FK1 + FB1 * FK0);
     wr FB m x y t 0 tmp
   }"

definition Cho_multiply :: "image \<Rightarrow> image \<Rightarrow> image \<Rightarrow> buffer option" where
  "Cho_multiply B FB FK =
     for_loop 0 (channels B) (\<lambda>t.
       for_loop 0 (height B) (\<lambda>y.
         for_loop 0 (width B) (\<lambda>x. Cho_multiply_pixel FB FK t y x))) (data FB)"

text \<open>Lines 476-549, after the padding: everything from \<open>alpha\<close> to the final crop.\<close>

definition Cho_alpha :: real where
  "Cho_alpha = 1"

definition Cho_solve :: "externals \<Rightarrow> image \<Rightarrow> image \<Rightarrow> image \<Rightarrow> image option" where
  "Cho_solve E Blurred K B = do {
     let alpha = Cho_alpha;
     let FK = EnlargeKernel E K (width B) (height B);
     let FB = RealComplex_apply (Transpose_apply_c_t B);
     let FK = FFT_apply E FK;
     let FB = FFT_apply E FB;
     let FK2 = ComplexMultiply_apply FK FK True;
     let SumDeriv = Image (width B) (height B) 1 2;
     let SumGrad = Image (width B) (height B) 1 2;
     (SumDeriv, SumGrad) \<leftarrow> for_loop 0 (5 + 1) (Cho_filter_step E B) (SumDeriv, SumGrad);
     let SumGrad = Scale_apply SumGrad alpha;
     let FK = ComplexConjugate_apply FK;
     let FK = ComplexMultiply_apply FK SumDeriv False;
     let FK2 = ComplexMultiply_apply FK2 SumDeriv False;
     let FK2 = Add_apply FK2 SumGrad;
     let FK = ComplexDivide_apply FK FK2 False;
     m \<leftarrow> Cho_multiply B FB FK;
     let FB = IFFT_apply E (FB\<lparr>data := m\<rparr>);
     let x_padding = (width B - width Blurred) div 2;
     let y_padding = (height B - height Blurred) div 2;
     Some (Crop_apply E (Transpose_apply_c_t (ComplexReal_apply FB))
             x_padding y_padding 0 (width Blurred) (height Blurred) (frames Blurred))
   }"

text \<open>
  The whole function, with FFTW linked. The result is the returned image or the error that
  ended the run, together with the checkpoint files written.
\<close>

definition applyCho2009 :: "externals \<Rightarrow> image \<Rightarrow> image \<Rightarrow> (error + image) \<times> files" where
  "applyCho2009 E Blurred K =
     (if \<not> (width K mod 2 = 1 \<and> height K mod 2 = 1) then (Inl PreconditionError, [])
      else if \<not> (channels K = 1 \<and> frames K = 1 \<and> frames Blurred = 1)
      then (Inl PreconditionError, [])
      else case applyPadding E Blurred of
             Inl e \<Rightarrow> (Inl e, [])
           | Inr B \<Rightarrow>
               (let fs = FileTMP_save B ''padded.tmp'' []
                in case Cho_solve E Blurred K B of
                     None \<Rightarrow> (Inl OutOfBounds, fs)
                   | Some L \<Rightarrow> (Inr L, fs)))"

section \<open>applyShan2008: the per-pixel Psi update (lines 152-157 and 176-311)\<close>

text \<open>Lines 153-157: the constants of the prior, after the adjustment for floating point.\<close>

definition prior_k :: real where
  "prior_k = 27 / 10 * 255"

definition prior_a :: real where
  "prior_a = 61 / 100000 * (255 * 255)"

definition prior_b :: real where
  "prior_b = 5"

definition prior_lt :: real where
  "prior_lt = 185263 / 100000 / 255"

text \<open>The three locals \<open>fscore\<close>, \<open>ans_x\<close> (or \<open>ans_y\<close>) and \<open>fscore_valid\<close>.\<close>

record psi_scan =
  fscore :: real
  ans :: real
  fscore_valid :: bool

text \<open>
  Each of the six blocks computes \<open>tmp\<close> and \<open>tmpscore\<close> and ends in
  \<open>if (feasible && (!fscore_valid || fscore > tmpscore)) { fscore = tmpscore; ans_x = tmp;
  fscore_valid = true; }\<close>. A candidate is the triple \<open>(feasible, tmp, tmpscore)\<close>.
\<close>

type_synonym candidate = "bool \<times> real \<times> real"

definition accepts :: "candidate \<Rightarrow> psi_scan \<Rightarrow> bool" where
  "accepts c s = (case c of (feasible, tmp, tmpscore) \<Rightarrow>
     feasible \<and> (\<not> fscore_valid s \<or> fscore s > tmpscore))"

definition offer :: "candidate \<Rightarrow> psi_scan \<Rightarrow> psi_scan" where
  "offer c s = (case c of (feasible, tmp, tmpscore) \<Rightarrow>
     if accepts c s then \<lparr>fscore = tmpscore, ans = tmp, fscore_valid = True\<rparr> else s)"

text \<open>Lines 184-240: the six candidates of the x field, in the order of the source.\<close>

definition Psi_x_candidates ::
  "real \<Rightarrow> real \<Rightarrow> real \<Rightarrow> real \<Rightarrow> real \<Rightarrow> real \<Rightarrow> candidate list" where
  "Psi_x_candidates gamma lambda_1 lambda_2 dLdx dIdx smoothness_map =
    [ \<comment> \<open>1) Quadratic region\<close>
      (let tmp = (gamma * dLdx + lambda_2 * dIdx * smoothness_map)
                 / (gamma + lambda_2 - prior_a * lambda_1);
           tmpscore = gamma * (tmp - dLdx) * (tmp - dLdx)
                    + lambda_2 * (tmp - dIdx) * (tmp - dIdx) * smoothness_map
                    + lambda_1 * (- (prior_a * tmp * tmp + prior_b))
       in (\<bar>tmp\<bar> > prior_lt, tmp, tmpscore)),
      \<comment> \<open>2) Positive linear region\<close>
      (let tmp = (gamma * dLdx + lambda_2 * dIdx * smoothness_map + lambda_1 * prior_k)
                 / (gamma + lambda_2);
           tmpscore = gamma * (tmp - dLdx) * (tmp - dLdx)
                    + lambda_2 * (tmp - dIdx) * (tmp - dIdx) * smoothness_map
                    + lambda_1 * (- prior_k * tmp)
       in (tmp \<ge> 0 \<and> tmp \<le> prior_lt, tmp, tmpscore)),
      \<comment> \<open>3) Negative linear region\<close>
      (let tmp = (gamma * dLdx + lambda_2 * dIdx * smoothness_map - lambda_1 * prior_k)
                 / (gamma + lambda_2);
           tmpscore = gamma * (tmp - dLdx) * (tmp - dLdx)
                    + lambda_2 * (tmp - dIdx) * (tmp - dIdx) * smoothness_map
                    + lambda_1 * (prior_k * tmp)
       in (tmp \<ge> 0 \<and> tmp \<le> prior_lt, tmp, tmpscore)),
      \<comment> \<open>4) Zero\<close>
      (let tmp = 0;
           tmpscore = gamma * (tmp - dLdx) * (tmp - dLdx)
                    + lambda_2 * (tmp - dIdx) * (tmp - dIdx) * smoothness_map
       in (True, tmp, tmpscore)),
      \<comment> \<open>5) lt\<close>
      (let tmp = prior_lt;
           tmpscore = gamma * (tmp - dLdx) * (tmp - dLdx)
                    + lambda_2 * (tmp - dIdx) * (tmp - dIdx) * smoothness_map
                    - lambda_1 * (- prior_k * prior_lt)
       in (True, tmp, tmpscore)),
      \<comment> \<open>6) -lt\<close>
      (let tmp = - prior_lt;
           tmpscore = gamma * (tmp - dLdx) * (tmp - dLdx)
                    + lambda_2 * (tmp - dIdx) * (tmp - dIdx) * smoothness_map
                    - lambda_1 * (prior_k * prior_lt)
       in (True, tmp, tmpscore)) ]"

text \<open>Lines 252-308: the six candidates of the y field.\<close>

definition Psi_y_candidates ::
  "real \<Rightarrow> real \<Rightarrow> real \<Rightarrow> real \<Rightarrow> real \<Rightarrow> real \<Rightarrow> candidate list" where
  "Psi_y_candidates gamma lambda_1 lambda_2 dLdy dIdy smoothness_map =
    [ \<comment> \<open>1) Quadratic region\<close>
      (let tmp = (gamma * dLdy + lambda_2 * dIdy * smoothness_map)
                 / (gamma + lambda_2 - prior_a * lambda_1);
           tmpscore = gamma * (tmp - dLdy) * (tmp - dLdy)
                    + lambda_2 * (tmp - dIdy) * (tmp - dIdy) * smoothness_map
                    + lambda_1 * (- (prior_a * tmp * tmp + prior_b))
       in (\<bar>tmp\<bar> > prior_lt, tmp, tmpscore)),
      \<comment> \<open>2) Positive linear region\<close>
      (let tmp = (gamma * dLdy + lambda_2 * dIdy * smoothness_map + lambda_1 * prior_k)
                 / (gamma + lambda_2);
           tmpscore = gamma * (tmp - dLdy) * (tmp - dLdy)
                    + lambda_2 * (tmp - dIdy) * (tmp - dIdy) * smoothness_map
                    + lambda_1 * (- prior_k * tmp)
       in (tmp \<ge> 0 \<and> tmp \<le> prior_lt, tmp, tmpscore)),
      \<comment> \<open>3) Negative linear region\<close>
      (let tmp = (gamma * dLdy + lambda_2 * dIdy * smoothness_map - lambda_1 * prior_k)
                 / (gamma + lambda_2);
           tmpscore = gamma * (tmp - dLdy) * (tmp - dLdy)
                    + lambda_2 * (tmp - dIdy) * (tmp - dIdy) * smoothness_map
                    + lambda_1 * (prior_k * tmp)
       in (tmp \<ge> 0 \<and> tmp \<le> prior_lt, tmp, tmpscore)),
      \<comment> \<open>4) Zero\<close>
      (let tmp = 0;
           tmpscore = gamma * (tmp - dLdy) * (tmp - dLdy)
                    + lambda_2 * (tmp - dIdy) * (tmp - dIdy) * smoothness_map
       in (True, tmp, tmpscore)),
      \<comment> \<open>5) lt\<close>
      (let tmp = prior_lt;
           tmpscore = gamma * (tmp - dLdy) * (tmp - dLdy)
                    + lambda_2 * (tmp - dIdy) * (tmp - dIdy) * smoothness_map
                    - lambda_1 * (- prior_k * prior_lt)
       in (True, tmp, tmpscore)),
      \<comment> \<open>6) -lt\<close>
      (let tmp = - prior_lt;
           tmpscore = gamma * (tmp - dLdy) * (tmp - dLdy)
                    + lambda_2 * (tmp - dIdy) * (tmp - dIdy) * smoothness_map
                    - lambda_1 * (prior_k * prior_lt)
       in (True, tmp, tmpscore)) ]"

text \<open>
  One pixel: \<open>fscore_valid = false\<close> (lines 178 and 246), then the six blocks in order. The
  scan starts from whatever \<open>fscore\<close> and \<open>ans\<close> hold (they are declared without a value
  at line 172 and live on from pixel to pixel). The value stored at lines 241 and 309 is
  \<open>ans\<close> of the final state.
\<close>

definition psi_scan_pixel :: "candidate list \<Rightarrow> psi_scan \<Rightarrow> psi_scan" where
  "psi_scan_pixel cs s0 = foldl (\<lambda>s c. offer c s) (s0\<lparr>fscore_valid := False\<rparr>) cs"

text \<open>
  The position (counted from 0) of the block whose assignment is the last one executed in a
  scan: the candidate that is selected. \<open>None\<close> when no block assigns.
\<close>

fun last_accepted :: "candidate list \<Rightarrow> psi_scan \<Rightarrow> nat \<Rightarrow> nat option \<Rightarrow> nat option" where
  "last_accepted [] s i w = w"
| "last_accepted (c # cs) s i w =
     (if accepts c s then last_accepted cs (offer c s) (Suc i) (Some i)
      else last_accepted cs s (Suc i) w)"

definition selected :: "candidate list \<Rightarrow> psi_scan \<Rightarrow> nat option" where
  "selected cs s0 = last_accepted cs (s0\<lparr>fscore_valid := False\<rparr>) 0 None"


section \<open>applyShan2008 (lines 40-357)\<close>

text \<open>Lines 99-131: the \<open>switch\<close> of the loop over the six derivative filters.\<close>

definition Shan_w :: "int \<Rightarrow> real" where
  "Shan_w i =
     (if i = 0 then 50
      else if i = 1 then 25
      else if i = 2 then 125 / 10
      else if i = 3 then 25
      else if i = 4 then 125 / 10
      else if i = 5 then 125 / 10
      else 0)"

definition Shan_taps :: "int \<Rightarrow> tap list" where
  "Shan_taps i =
     (if i = 0 then [((0, 0), 1)]
      else if i = 1 then [((0, 0), - 1), ((1, 0), 1)]
      else if i = 2 then [((0, 0), 1), ((1, 0), - 2), ((2, 0), 1)]
      else if i = 3 then [((0, 0), - 1), ((0, 1), 1)]
      else if i = 4 then [((0, 0), 1), ((0, 1), - 2), ((0, 2), 1)]
      else if i = 5 then [((0, 0), 1), ((1, 0), - 1), ((0, 1), - 1), ((1, 1), 1)]
      else [])"

text \<open>
  Lines 59-79: the smoothness map. \<open>x_padding\<close> and \<open>y_padding\<close> are those of lines 56-57.
\<close>

definition Shan_smoothness_map ::
  "externals \<Rightarrow> image \<Rightarrow> image \<Rightarrow> image \<Rightarrow> int \<Rightarrow> int \<Rightarrow> image" where
  "Shan_smoothness_map E K Bgray B_large x_padding y_padding =
     (let filter_x = Image (width K) 1 1 1;
          filter_y = Image 1 (height K) 1 1;
          filter_x = Offset_apply filter_x (1 / real_of_int (width K));
          filter_y = Offset_apply filter_y (1 / real_of_int (height K));
          filter_x = (if width K mod 2 = 0
                      then Crop_apply4 E filter_x 0 0 (width K + 1) 1 else filter_x);
          filter_y = (if height K mod 2 = 0
                      then Crop_apply4 E filter_y 0 0 1 (height K + 1) else filter_y);
          tmp = Convolve_apply E (Convolve_apply E Bgray filter_x Clamp) filter_y Clamp;
          tmp = Multiply_apply_Elementwise tmp tmp;
          smoothness_map = Bgray;
          smoothness_map = Multiply_apply_Elementwise smoothness_map smoothness_map;
          smoothness_map =
            Convolve_apply E (Convolve_apply E smoothness_map filter_x Clamp) filter_y Clamp;
          smoothness_map = Subtract_apply smoothness_map tmp;
          smoothness_map = Scale_apply smoothness_map (- 1);
          smoothness_map = Threshold_apply smoothness_map (- 25 / (256 * 256))
      in Crop_apply E smoothness_map (- x_padding) (- y_padding) 0
           (width B_large) (height B_large) 1)"

text \<open>
  Lines 99-142: one iteration of the loop over the filters. The state is the array
  \<open>FDeriv\<close> (a function of the index) with \<open>denominator_base\<close> and \<open>numerator_base\<close>;
  \<open>K_large\<close>, \<open>FK2\<close> and \<open>B_large\<close> are those of lines 82-87.
\<close>

record shan_bases =
  FDeriv :: "int \<Rightarrow> image"
  denominator_base :: image
  numerator_base :: image

definition Shan_filter_step ::
  "externals \<Rightarrow> image \<Rightarrow> image \<Rightarrow> image \<Rightarrow> int \<Rightarrow> shan_bases \<Rightarrow> shan_bases option" where
  "Shan_filter_step E B_large K_large FK2 i s = do {
     let w_i = Shan_w i;
     let F = Image (width B_large) (height B_large) 1 2;
     m \<leftarrow> assign_taps F (Shan_taps i) (data F);
     let F = FFT_apply E (F\<lparr>data := m\<rparr>);
     let tmp = F;
     let F = ComplexConjugate_apply F;
     let tmp = ComplexMultiply_apply tmp F False;
     let tmq = tmp;
     let tmp = ComplexMultiply_apply tmp FK2 False;
     let tmq = ComplexMultiply_apply tmq K_large False;
     let tmq = ComplexMultiply_apply tmq B_large False;
     Some (s\<lparr>FDeriv := (FDeriv s)(i := F),
              denominator_base := Add_apply_weighted (denominator_base s) tmp w_i,
              numerator_base := Add_apply_weighted (numerator_base s) tmq w_i\<rparr>)
   }"

text \<open>
  Lines 176-243 and 244-311: the two pixel loops of the Psi update. The state is the buffer
  of \<open>Psi_x\<close> (or \<open>Psi_y\<close>) with the scan variables.
\<close>

definition Shan_Psi_x_pixel ::
  "real \<Rightarrow> real \<Rightarrow> real \<Rightarrow> image \<Rightarrow> image \<Rightarrow> image \<Rightarrow> image \<Rightarrow> int \<Rightarrow> int
     \<Rightarrow> buffer \<times> psi_scan \<Rightarrow> (buffer \<times> psi_scan) option" where
  "Shan_Psi_x_pixel gamma lambda_1 lambda_2 dLdx dIdx smoothness_map Psi_x y x s =
     (case s of (m, scan) \<Rightarrow> do {
        dL \<leftarrow> rd dLdx (data dLdx) x y 0 0;
        dI \<leftarrow> rd dIdx (data dIdx) x y 0 0;
        sm \<leftarrow> rd smoothness_map (data smoothness_map) x y 0 0;
        let scan = psi_scan_pixel (Psi_x_candidates gamma lambda_1 lambda_2 dL dI sm) scan;
        m \<leftarrow> wr Psi_x m x y 0 0 (ans scan);
        Some (m, scan)
      })"

definition Shan_Psi_y_pixel ::
  "real \<Rightarrow> real \<Rightarrow> real \<Rightarrow> image \<Rightarrow> image \<Rightarrow> image \<Rightarrow> image \<Rightarrow> int \<Rightarrow> int
     \<Rightarrow> buffer \<times> psi_scan \<Rightarrow> (buffer \<times> psi_scan) option" where
  "Shan_Psi_y_pixel gamma lambda_1 lambda_2 dLdy dIdy smoothness_map Psi_y y x s =
     (case s of (m, scan) \<Rightarrow> do {
        dL \<leftarrow> rd dLdy (data dLdy) x y 0 0;
        dI \<leftarrow> rd dIdy (data dIdy) x y 0 0;
        sm \<leftarrow> rd smoothness_map (data smoothness_map) x y 0 0;
        let scan = psi_scan_pixel (Psi_y_candidates gamma lambda_1 lambda_2 dL dI sm) scan;
        m \<leftarrow> wr Psi_y m x y 0 0 (ans scan);
        Some (m, scan)
      })"

text \<open>
  Lines 328-338: the pixel loop that appends the variable terms. The state is the pair of
  the buffers of \<open>denominator\<close> and \<open>numerator\<close>.
\<close>

definition Shan_append_pixel ::
  "real \<Rightarrow> image \<Rightarrow> image \<Rightarrow> image \<Rightarrow> image \<Rightarrow> image \<Rightarrow> image \<Rightarrow> int \<Rightarrow> int
     \<Rightarrow> buffer \<times> buffer \<Rightarrow> (buffer \<times> buffer) option" where
  "Shan_append_pixel gamma FDeriv1 FDeriv3 FPsi_x FPsi_y denominator numerator y x s =
     (case s of (d, n) \<Rightarrow> do {
        d0 \<leftarrow> rd denominator d x y 0 0;
        a0 \<leftarrow> rd FDeriv1 (data FDeriv1) x y 0 0;
        a1 \<leftarrow> rd FDeriv1 (data FDeriv1) x y 0 1;
        d \<leftarrow> wr denominator d x y 0 0 (d0 + gamma * (a0 * a0 + a1 * a1));
        d0 \<leftarrow> rd denominator d x y 0 0;
        b0 \<leftarrow> rd FDeriv3 (data FDeriv3) x y 0 0;
        b1 \<leftarrow> rd FDeriv3 (data FDeriv3) x y 0 1;
        d \<leftarrow> wr denominator d x y 0 0 (d0 + gamma * (b0 * b0 + b1 * b1));
        n0 \<leftarrow> rd numerator n x y 0 0;
        px0 \<leftarrow> rd FPsi_x (data FPsi_x) x y 0 0;
        px1 \<leftarrow> rd FPsi_x (data FPsi_x) x y 0 1;
        n \<leftarrow> wr numerator n x y 0 0 (n0 + gamma * (a0 * px0 - a1 * px1));
        n0 \<leftarrow> rd numerator n x y 0 0;
        py0 \<leftarrow> rd FPsi_y (data FPsi_y) x y 0 0;
        py1 \<leftarrow> rd FPsi_y (data FPsi_y) x y 0 1;
        n \<leftarrow> wr numerator n x y 0 0 (n0 + gamma * (b0 * py0 - b1 * py1));
        Some (d, n)
      })"

text \<open>
  The locals that live across the rounds: the schedule, \<open>L\<close>, the two Psi images, and the
  checkpoint files written so far.
\<close>

record shan_state =
  lambda_1 :: real
  lambda_2 :: real
  gamma :: real
  L :: image
  Psi_x :: image
  Psi_y :: image
  saved :: files

text \<open>What the rounds only read: the canvas, the smoothness map, the transforms and the bases.\<close>

record shan_fixed =
  B_large :: image
  smoothness_map :: image
  bases :: shan_bases
  dIdx :: image
  dIdy :: image

text \<open>\<open>sprintf(filename_c, "output%02d.tmp", iterations)\<close> for the iteration numbers below 100.\<close>

definition digit :: "int \<Rightarrow> char" where
  "digit d = ''0123456789'' ! nat d"

definition output_filename :: "int \<Rightarrow> string" where
  "output_filename iterations =
     ''output'' @ [digit (iterations div 10), digit (iterations mod 10)] @ ''.tmp''"

text \<open>
  Lines 159-352: one round. The scan variables are declared in the round without a value
  (line 172); they are never read before the first block that assigns them, and start here
  as zeros.
\<close>

definition Shan_round :: "externals \<Rightarrow> shan_fixed \<Rightarrow> int \<Rightarrow> shan_state \<Rightarrow> shan_state option" where
  "Shan_round E C iterations s = do {
     let w = width (B_large C);
     let h = height (B_large C);
     let scan = \<lparr>fscore = 0, ans = 0, fscore_valid = False\<rparr>;
     let dLdx = Convolve_apply E (L s) (Crop_apply4 E (FDeriv (bases C) 1) (- 1) 0 3 1) Wrap;
     let dLdy = Convolve_apply E (L s) (Crop_apply4 E (FDeriv (bases C) 3) 0 (- 1) 1 3) Wrap;
     (mx, scan) \<leftarrow> for_loop 0 h (\<lambda>y. for_loop 0 w
        (Shan_Psi_x_pixel (gamma s) (lambda_1 s) (lambda_2 s) dLdx (dIdx C) (smoothness_map C)
           (Psi_x s) y)) (data (Psi_x s), scan);
     (my, scan) \<leftarrow> for_loop 0 h (\<lambda>y. for_loop 0 w
        (Shan_Psi_y_pixel (gamma s) (lambda_1 s) (lambda_2 s) dLdy (dIdy C) (smoothness_map C)
           (Psi_y s) y)) (data (Psi_y s), scan);
     let Psi_x' = (Psi_x s)\<lparr>data := mx\<rparr>;
     let Psi_y' = (Psi_y s)\<lparr>data := my\<rparr>;
     let FPsi_x = FFT_apply E Psi_x';
     let FPsi_y = FFT_apply E Psi_y';
     let denominator = denominator_base (bases C);
     let numerator = numerator_base (bases C);
     (d, n) \<leftarrow> for_loop 0 h (\<lambda>y. for_loop 0 w
        (Shan_append_pixel (gamma s) (FDeriv (bases C) 1) (FDeriv (bases C) 3) FPsi_x FPsi_y
           denominator numerator y)) (data denominator, data numerator);
     let denominator = denominator\<lparr>data := d\<rparr>;
     let numerator = numerator\<lparr>data := n\<rparr>;
     let numerator = ComplexDivide_apply numerator denominator False;
     let numerator = IFFT_apply E numerator;
     let L' = ComplexReal_apply numerator;
     let filename = output_filename iterations;
     Some (s\<lparr>lambda_1 := lambda_1 s / (12 / 10),
              lambda_2 := lambda_2 s / (15 / 10),
              gamma := gamma s * 2,
              L := L',
              Psi_x := Psi_x',
              Psi_y := Psi_y',
              saved := FileTMP_save L' filename (saved s)\<rparr>)
   }"

text \<open>Line 150.\<close>

definition MAX_ITERATION :: int where
  "MAX_ITERATION = 2"

text \<open>
  Modelled from the spec: \<open>Image L\<close> (line 146) is declared without a value and read at
  line 174 before line 341 first assigns it; the class is declared in \<open>main.h\<close>. The spec
  has "L: the working reconstruction, same size as canvas; initialized implicitly
  (zero/undefined before iteration 1, since iteration 1's Psi update uses it)": here a
  single-channel image of the size of the canvas whose samples are a parameter.
\<close>

definition Shan_initial_L :: "externals \<Rightarrow> image \<Rightarrow> image" where
  "Shan_initial_L E canvas =
     \<lparr>width = width canvas, height = height canvas, frames = 1, channels = 1,
      data = initial_L_samples E\<rparr>"

text \<open>Lines 81-157: what is prepared before the rounds.\<close>

definition Shan_prepare ::
  "externals \<Rightarrow> image \<Rightarrow> image \<Rightarrow> image \<Rightarrow> image \<Rightarrow> (shan_fixed \<times> shan_state) option" where
  "Shan_prepare E B K Bgray B_large0 = do {
     let K_large = EnlargeKernel E K (width B_large0) (height B_large0);
     let x_padding = (width B_large0 - width B) div 2;
     let y_padding = (height B_large0 - height B) div 2;
     let smoothness_map = Shan_smoothness_map E K Bgray B_large0 x_padding y_padding;
     let K_large = FFT_apply E K_large;
     let FK2 = K_large;
     let K_large = ComplexConjugate_apply K_large;
     let FK2 = ComplexMultiply_apply FK2 K_large False;
     let B_large = RealComplex_apply B_large0;
     let B_large = FFT_apply E B_large;
     let numerator_base = Image (width B_large) (height B_large) 1 2;
     let denominator_base = Image (width B_large) (height B_large) 1 2;
     bs \<leftarrow> for_loop 0 (5 + 1) (Shan_filter_step E B_large K_large FK2)
            \<lparr>FDeriv = (\<lambda>i. Image 0 0 0 0), denominator_base = denominator_base,
             numerator_base = numerator_base\<rparr>;
     let dIdx = Convolve_apply E B_large (Crop_apply4 E (FDeriv bs 1) (- 1) 0 3 1) Wrap;
     let dIdy = Convolve_apply E B_large (Crop_apply4 E (FDeriv bs 3) 0 (- 1) 1 3) Wrap;
     let L = Shan_initial_L E B_large;
     let Psi_x = Image (width B_large) (height B_large) 1 2;
     let Psi_y = Image (width B_large) (height B_large) 1 2;
     Some (\<lparr>B_large = B_large, smoothness_map = smoothness_map, bases = bs,
            dIdx = dIdx, dIdy = dIdy\<rparr>,
           \<lparr>lambda_1 = 1 / 10, lambda_2 = 15, gamma = 2, L = L, Psi_x = Psi_x, Psi_y = Psi_y,
            saved = []\<rparr>)
   }"

text \<open>
  The rounds \<open>iterations = 1, ..., MAX_ITERATION\<close> (line 159): the state after the last
  round, or \<open>None\<close> when a round reads or writes outside a buffer, with the files written
  until then.
\<close>

primrec Shan_iterate ::
  "externals \<Rightarrow> shan_fixed \<Rightarrow> int list \<Rightarrow> shan_state \<Rightarrow> shan_state option \<times> files" where
  "Shan_iterate E C [] s = (Some s, saved s)"
| "Shan_iterate E C (i # is) s =
     (case Shan_round E C i s of
        None \<Rightarrow> (None, saved s)
      | Some s' \<Rightarrow> Shan_iterate E C is s')"

definition Shan_rounds ::
  "externals \<Rightarrow> shan_fixed \<Rightarrow> shan_state \<Rightarrow> shan_state option \<times> files" where
  "Shan_rounds E C s = Shan_iterate E C [1..MAX_ITERATION] s"

text \<open>
  The whole function, with FFTW linked. The result is the returned image or the error that
  ended the run, together with the checkpoint files written.
\<close>

definition applyShan2008 :: "externals \<Rightarrow> image \<Rightarrow> image \<Rightarrow> (error + image) \<times> files" where
  "applyShan2008 E B K =
     (if \<not> (channels K = 1 \<and> frames K = 1 \<and> frames B = 1) then (Inl PreconditionError, [])
      else if \<not> (width K mod 2 = 1 \<and> height K mod 2 = 1) then (Inl PreconditionError, [])
      else
        let Bgray = (if channels B = 3 then ColorConvert_apply_rgb_y E B else B)
        in case applyPadding E Bgray of
             Inl e \<Rightarrow> (Inl e, [])
           | Inr B_large0 \<Rightarrow>
               (case Shan_prepare E B K Bgray B_large0 of
                  None \<Rightarrow> (Inl OutOfBounds, [])
                | Some (C, s) \<Rightarrow>
                    (case Shan_rounds E C s of
                       (None, fs) \<Rightarrow> (Inl OutOfBounds, fs)
                     | (Some s, fs) \<Rightarrow>
                         (let x_padding = (width B_large0 - width B) div 2;
                              y_padding = (height B_large0 - height B) div 2
                          in (Inr (Crop_apply4 E (L s) x_padding y_padding (width B) (height B)),
                              fs)))))"

section \<open>Notions used in the proofs\<close>

definition keeps :: "(int \<Rightarrow> bool) \<Rightarrow> (pad_state \<Rightarrow> pad_state option) \<Rightarrow> bool" where
  "keeps K f \<longleftrightarrow> (\<forall>s s'. f s = Some s' \<longrightarrow> (\<forall>i. K i \<longrightarrow> fst s' i = fst s i))"

definition total :: "('s \<Rightarrow> 's option) \<Rightarrow> bool" where
  "total f \<longleftrightarrow> (\<forall>s. \<exists>s'. f s = Some s')"

definition pad_ctx :: "image \<Rightarrow> int \<Rightarrow> int \<Rightarrow> int \<Rightarrow> image \<Rightarrow> bool" where
  "pad_ctx B alpha xp yp ret \<longleftrightarrow>
     0 \<le> width B \<and> 0 \<le> height B \<and> 0 \<le> channels B \<and> 0 \<le> alpha
     \<and> alpha * 3 \<le> xp \<and> alpha * 3 \<le> yp
     \<and> width ret = width B + xp * 2 \<and> height ret = height B + yp * 2
     \<and> channels ret = channels B \<and> frames ret = frames B"

definition is_margin :: "image \<Rightarrow> int \<Rightarrow> int \<Rightarrow> image \<Rightarrow> int \<Rightarrow> bool" where
  "is_margin B xp yp ret i \<longleftrightarrow>
     x_of ret i < xp \<or> xp + width B \<le> x_of ret i
     \<or> y_of ret i < yp \<or> yp + height B \<le> y_of ret i"

definition pad_big :: "image \<Rightarrow> int \<Rightarrow> int \<Rightarrow> int \<Rightarrow> image \<Rightarrow> int \<Rightarrow> bool" where
  "pad_big B alpha xp yp ret t \<longleftrightarrow>
     pad_ctx B alpha xp yp ret \<and> alpha = 1 \<and> 1 \<le> height B \<and> 0 \<le> t \<and> t < frames B"

definition E_id :: externals where
  "E_id = \<lparr>crop_fill = (\<lambda>im x y t c. 0), fft_samples = data, ifft_samples = data,
     enlarged_kernel_samples = (\<lambda>K w h i. 0), luma_samples = data,
     convolve_samples = (\<lambda>im f b. data im), initial_L_samples = (\<lambda>i. 0)\<rparr>"

definition B_3x3 :: image where
  "B_3x3 = \<lparr>width = 3, height = 3, frames = 1, channels = 1, data = (\<lambda>i. real_of_int (i + 1))\<rparr>"

definition K_even :: image where
  "K_even = \<lparr>width = 2, height = 3, frames = 1, channels = 1, data = (\<lambda>i. 1 / 6)\<rparr>"

definition has_shape :: "image \<Rightarrow> int \<Rightarrow> int \<Rightarrow> int \<Rightarrow> int \<Rightarrow> bool" where
  "has_shape a w h f c \<longleftrightarrow> width a = w \<and> height a = h \<and> frames a = f \<and> channels a = c"

definition Cho_product :: "image \<Rightarrow> image \<Rightarrow> buffer \<Rightarrow> int \<Rightarrow> real" where
  "Cho_product FB FK m0 j =
     (let FB0 = m0 (j - j mod 2); FB1 = m0 (j - j mod 2 + 1);
          FK0 = data FK (offset FK (x_of FB j) (y_of FB j) 0 0);
          FK1 = data FK (offset FK (x_of FB j) (y_of FB j) 0 1)
      in if j mod 2 = 0 then FB0 * FK0 - FB1 * FK1 else FB0 * FK1 + FB1 * FK0)"

definition done_below :: "image \<Rightarrow> image \<Rightarrow> buffer \<Rightarrow> int \<Rightarrow> buffer" where
  "done_below FB FK m0 k = (\<lambda>j. if 0 \<le> j \<and> j < k then Cho_product FB FK m0 j else m0 j)"

definition Cho_SumDeriv_at :: "externals \<Rightarrow> int \<Rightarrow> int \<Rightarrow> int \<Rightarrow> int \<Rightarrow> int \<Rightarrow> real" where
  "Cho_SumDeriv_at E w h n x y = (\<Sum>i\<leftarrow>[0..n]. Cho_w i * (cmod (cplx (Cho_D E w h i) x y 0))\<^sup>2)"

definition Cho_SumGrad_at :: "externals \<Rightarrow> int \<Rightarrow> int \<Rightarrow> int \<Rightarrow> int \<Rightarrow> int \<Rightarrow> real" where
  "Cho_SumGrad_at E w h n x y =
     (\<Sum>i\<leftarrow>[0..n]. if i = 1 \<or> i = 3 then (cmod (cplx (Cho_D E w h i) x y 0))\<^sup>2 else 0)"

definition K_1x1 :: image where
  "K_1x1 = \<lparr>width = 1, height = 1, frames = 1, channels = 1, data = (\<lambda>i. 1)\<rparr>"

definition Cho_spectrum :: "externals \<Rightarrow> image \<Rightarrow> image \<Rightarrow> image" where
  "Cho_spectrum E K B =
     (let FK = FFT_apply E (EnlargeKernel E K (width B) (height B));
          FB = FFT_apply E (RealComplex_apply (Transpose_apply_c_t B));
          FK2 = ComplexMultiply_apply FK FK True;
          (SumDeriv, SumGrad) = the (for_loop 0 (5 + 1) (Cho_filter_step E B)
                                       (Image (width B) (height B) 1 2, Image (width B) (height B) 1 2));
          FK = ComplexDivide_apply (ComplexMultiply_apply (ComplexConjugate_apply FK) SumDeriv False)
                 (Add_apply (ComplexMultiply_apply FK2 SumDeriv False) (Scale_apply SumGrad Cho_alpha))
                 False
      in FB\<lparr>data := done_below FB FK (data FB) (samples FB)\<rparr>)"

definition covers :: "image \<Rightarrow> int \<Rightarrow> int \<Rightarrow> int \<Rightarrow> bool" where
  "covers im w h c \<longleftrightarrow> width im = w \<and> height im = h \<and> 1 \<le> frames im \<and> c \<le> channels im"

definition shan_shapes :: "int \<Rightarrow> int \<Rightarrow> shan_fixed \<Rightarrow> shan_state \<Rightarrow> bool" where
  "shan_shapes w h C s \<longleftrightarrow>
     width (B_large C) = w \<and> height (B_large C) = h
     \<and> covers (smoothness_map C) w h 1 \<and> covers (dIdx C) w h 1 \<and> covers (dIdy C) w h 1
     \<and> covers (FDeriv (bases C) 1) w h 2 \<and> covers (FDeriv (bases C) 3) w h 2
     \<and> has_shape (denominator_base (bases C)) w h 1 2
     \<and> has_shape (numerator_base (bases C)) w h 1 2
     \<and> covers (L s) w h 1 \<and> has_shape (Psi_x s) w h 1 2 \<and> has_shape (Psi_y s) w h 1 2"

definition B_3x3_rgb :: image where
  "B_3x3_rgb = \<lparr>width = 3, height = 3, frames = 1, channels = 3, data = (\<lambda>i. real_of_int i / 27)\<rparr>"

section \<open>Proofs: offsets, memory operations and loops\<close>

lemma chan_of_offset:
  "0 \<le> c \<Longrightarrow> c < channels im \<Longrightarrow> chan_of im (offset im x y t c) = c"
  by (simp add: chan_of_def offset_def)

lemma div_channels_offset:
  "0 \<le> c \<Longrightarrow> c < channels im \<Longrightarrow>
   offset im x y t c div channels im = (t * height im + y) * width im + x"
  by (simp add: offset_def)

lemma x_of_offset:
  "0 \<le> c \<Longrightarrow> c < channels im \<Longrightarrow> 0 \<le> x \<Longrightarrow> x < width im \<Longrightarrow>
   x_of im (offset im x y t c) = x"
  by (simp add: x_of_def div_channels_offset)

lemma y_of_offset:
  "0 \<le> c \<Longrightarrow> c < channels im \<Longrightarrow> 0 \<le> x \<Longrightarrow> x < width im \<Longrightarrow>
   0 \<le> y \<Longrightarrow> y < height im \<Longrightarrow> y_of im (offset im x y t c) = y"
  by (simp add: y_of_def div_channels_offset)

lemma t_of_offset:
  "0 \<le> c \<Longrightarrow> c < channels im \<Longrightarrow> 0 \<le> x \<Longrightarrow> x < width im \<Longrightarrow>
   0 \<le> y \<Longrightarrow> y < height im \<Longrightarrow> t_of im (offset im x y t c) = t"
  by (simp add: t_of_def div_channels_offset)

lemma offset_nonneg:
  assumes "0 \<le> c" "0 \<le> x" "0 \<le> y" "0 \<le> t" "0 \<le> channels im" "0 \<le> width im" "0 \<le> height im"
  shows "0 \<le> offset im x y t c"
  using assms by (simp add: offset_def)

lemma offset_row_end:
  assumes "0 \<le> x" "x \<le> width im" "0 \<le> y" "y < height im" "0 \<le> t" "t < frames im"
    and "0 \<le> channels im"
  shows "offset im x y t 0 \<le> samples im"
proof -
  have w: "0 \<le> width im" using assms by simp
  have h: "0 \<le> height im" using assms by simp
  have "(t * height im + y) * width im + x \<le> (t * height im + y) * width im + width im"
    using assms by simp
  also have "\<dots> = (t * height im + (y + 1)) * width im" by (simp add: algebra_simps)
  also have "\<dots> \<le> (t * height im + height im) * width im"
    using assms w by (intro mult_right_mono) auto
  also have "\<dots> = ((t + 1) * height im) * width im" by (simp add: algebra_simps)
  also have "\<dots> \<le> (frames im * height im) * width im"
    using assms w h by (intro mult_right_mono) auto
  finally have "((t * height im + y) * width im + x) * channels im
      \<le> (frames im * height im * width im) * channels im"
    using assms(7) by (intro mult_right_mono) auto
  then show ?thesis by (simp add: offset_def samples_def mult_ac)
qed

lemma offset_in_buffer:
  assumes "0 \<le> c" "c < channels im" "0 \<le> x" "x < width im" "0 \<le> y" "y < height im"
    and "0 \<le> t" "t < frames im"
  shows "in_buffer im (offset im x y t c)"
proof -
  have "offset im x y t c < offset im (x + 1) y t 0"
    using assms by (simp add: offset_def algebra_simps)
  also have "\<dots> \<le> samples im"
    using assms by (intro offset_row_end) auto
  finally have "offset im x y t c < samples im" .
  moreover have "0 \<le> offset im x y t c"
    using assms by (intro offset_nonneg) auto
  ultimately show ?thesis by (simp add: in_buffer_def)
qed

lemma offset_add_in_row:
  assumes "0 < channels im" "0 \<le> j"
  shows "offset im x y t 0 + j = offset im (x + j div channels im) y t (j mod channels im)"
  by (simp add: offset_def algebra_simps)

lemma rd_in_range:
  assumes "0 \<le> c" "c < channels im" "0 \<le> x" "x < width im" "0 \<le> y" "y < height im"
    and "0 \<le> t" "t < frames im"
  shows "rd im m x y t c = Some (m (offset im x y t c))"
  using offset_in_buffer[OF assms] by (simp add: rd_def)

lemma wr_in_range:
  assumes "0 \<le> c" "c < channels im" "0 \<le> x" "x < width im" "0 \<le> y" "y < height im"
    and "0 \<le> t" "t < frames im"
  shows "wr im m x y t c v = Some (m(offset im x y t c := v))"
  using offset_in_buffer[OF assms] by (simp add: wr_def)

lemma iterate_total:
  assumes "\<And>i s. i \<in> set is \<Longrightarrow> \<exists>s'. body i s = Some s'"
  shows "\<exists>s'. iterate is body s = Some s'"
  using assms
proof (induction "is" arbitrary: s)
  case Nil
  then show ?case by simp
next
  case (Cons i "is")
  obtain s1 where "body i s = Some s1" using Cons.prems[of i s] by auto
  moreover obtain s2 where "iterate is body s1 = Some s2"
    using Cons.IH[of s1] Cons.prems by auto
  ultimately show ?case by simp
qed

lemma for_loop_total:
  assumes "\<And>i s. lo \<le> i \<Longrightarrow> i < hi \<Longrightarrow> \<exists>s'. body i s = Some s'"
  shows "\<exists>s'. for_loop lo hi body s = Some s'"
  unfolding for_loop_def by (rule iterate_total) (use assms in auto)

lemma iterate_invariant:
  assumes "iterate is body s = Some s'" and "P s"
    and "\<And>i s s'. i \<in> set is \<Longrightarrow> P s \<Longrightarrow> body i s = Some s' \<Longrightarrow> P s'"
  shows "P s'"
  using assms
proof (induction "is" arbitrary: s)
  case Nil
  then show ?case by simp
next
  case (Cons i "is")
  from Cons.prems(1) obtain s1 where b: "body i s = Some s1" and r: "iterate is body s1 = Some s'"
    by (auto split: option.splits)
  have "P s1" using Cons.prems(3)[of i s s1] Cons.prems(2) b by simp
  then show ?case by (rule Cons.IH[OF r]) (use Cons.prems(3) in auto)
qed

lemma for_loop_invariant:
  assumes "for_loop lo hi body s = Some s'" and "P s"
    and "\<And>i s s'. lo \<le> i \<Longrightarrow> i < hi \<Longrightarrow> P s \<Longrightarrow> body i s = Some s' \<Longrightarrow> P s'"
  shows "P s'"
  using assms(1) unfolding for_loop_def
  by (rule iterate_invariant[where P = P]) (use assms(2,3) in auto)

section \<open>Proofs: applyPadding\<close>

subsection \<open>Programs on the padding state that leave part of the buffer alone, or never fail\<close>

lemma keeps_for_loop:
  assumes "\<And>i. lo \<le> i \<Longrightarrow> i < hi \<Longrightarrow> keeps K (body i)"
  shows "keeps K (for_loop lo hi body)"
  unfolding keeps_def
proof (intro allI impI)
  fix s s' i
  assume run: "for_loop lo hi body s = Some s'" and "K i"
  have step: "fst v i = fst s i"
    if "lo \<le> j" "j < hi" "fst u i = fst s i" "body j u = Some v" for j u v
  proof -
    have "fst v i = fst u i"
      using assms[OF that(1,2)] that(4) \<open>K i\<close> unfolding keeps_def by blast
    then show ?thesis using that(3) by simp
  qed
  show "fst s' i = fst s i"
  proof (rule for_loop_invariant[OF run, where P = "\<lambda>u. fst u i = fst s i"])
    show "fst s i = fst s i" by simp
  next
    fix j u v
    assume "lo \<le> j" "j < hi" "fst u i = fst s i" "body j u = Some v"
    then show "fst v i = fst s i" by (rule step)
  qed
qed

lemma keeps_seq:
  assumes "keeps K f" and "keeps K g"
  shows "keeps K (\<lambda>s. Option.bind (f s) g)"
  unfolding keeps_def
proof (intro allI impI)
  fix s s' i
  assume run: "Option.bind (f s) g = Some s'" and "K i"
  from run obtain u where u: "f s = Some u" and v: "g u = Some s'"
    by (auto split: bind_splits)
  have "fst u i = fst s i" using assms(1) u \<open>K i\<close> unfolding keeps_def by blast
  moreover have "fst s' i = fst u i" using assms(2) v \<open>K i\<close> unfolding keeps_def by blast
  ultimately show "fst s' i = fst s i" by simp
qed

lemma total_for_loop:
  assumes "\<And>i. lo \<le> i \<Longrightarrow> i < hi \<Longrightarrow> total (body i)"
  shows "total (for_loop lo hi body)"
  unfolding total_def
proof
  fix s
  show "\<exists>s'. for_loop lo hi body s = Some s'"
  proof (rule for_loop_total)
    fix i u
    assume "lo \<le> i" "i < hi"
    then show "\<exists>s'. body i u = Some s'" using assms unfolding total_def by blast
  qed
qed

lemma total_seq:
  assumes "total f" and "total g"
  shows "total (\<lambda>s. Option.bind (f s) g)"
  unfolding total_def
proof
  fix s
  obtain u where u: "f s = Some u" using assms(1) unfolding total_def by blast
  obtain v where v: "g u = Some v" using assms(2) unfolding total_def by blast
  show "\<exists>s'. Option.bind (f s) g = Some s'" using u v by simp
qed

subsection \<open>The canvas of applyPadding\<close>

lemma int_div_less:
  fixes C j n :: int
  assumes "0 < C" "j < n * C"
  shows "j div C < n"
proof (rule ccontr)
  assume "\<not> j div C < n"
  then have "n * C \<le> (j div C) * C" using assms(1) by (intro mult_right_mono) auto
  moreover have "0 \<le> j mod C" using assms(1) by simp
  moreover have "j div C * C + j mod C = j" by simp
  ultimately show False using assms(2) by linarith
qed

lemma is_margin_offset:
  assumes "pad_ctx B alpha xp yp ret"
    and "0 \<le> c" "c < channels B" "0 \<le> x" "x < width B + xp * 2" "0 \<le> y" "y < height B + yp * 2"
    and "x < xp \<or> xp + width B \<le> x \<or> y < yp \<or> yp + height B \<le> y"
  shows "is_margin B xp yp ret (offset ret x y t c)"
proof -
  have "x_of ret (offset ret x y t c) = x"
    using assms by (intro x_of_offset) (auto simp: pad_ctx_def)
  moreover have "y_of ret (offset ret x y t c) = y"
    using assms by (intro y_of_offset) (auto simp: pad_ctx_def)
  ultimately show ?thesis using assms(8) by (simp add: is_margin_def)
qed

lemma wr_keeps:
  assumes "wr ret m x y t c v = Some m'" and "is_margin B xp yp ret (offset ret x y t c)"
    and "\<not> is_margin B xp yp ret i"
  shows "m' i = m i"
  using assms by (auto simp: wr_def split: if_splits)

lemma memcpy_keeps:
  assumes "memcpy ret m dst src n = Some m'"
    and "\<And>j. 0 \<le> j \<Longrightarrow> j < n \<Longrightarrow> is_margin B xp yp ret (dst + j)"
    and "\<not> is_margin B xp yp ret i"
  shows "m' i = m i"
proof (cases "n \<le> 0")
  case True
  then show ?thesis using assms(1) by (simp add: memcpy_def)
next
  case False
  have "\<not> (dst \<le> i \<and> i < dst + n)"
  proof
    assume "dst \<le> i \<and> i < dst + n"
    then have "is_margin B xp yp ret (dst + (i - dst))" by (intro assms(2)) auto
    then show False using assms(3) by simp
  qed
  then show ?thesis using assms(1) False by (auto simp: memcpy_def split: if_splits)
qed

lemma memcpy_row_keeps:
  assumes ctx: "pad_ctx B alpha xp yp ret"
    and run: "memcpy ret m (offset ret x0 y t 0) src (channels B * n) = Some m'"
    and x0: "0 \<le> x0" "x0 + n \<le> width B + xp * 2" and y: "0 \<le> y" "y < height B + yp * 2"
    and mar: "y < yp \<or> yp + height B \<le> y \<or> x0 + n \<le> xp \<or> xp + width B \<le> x0"
    and i: "\<not> is_margin B xp yp ret i"
  shows "m' i = m i"
proof (rule memcpy_keeps[OF run _ i])
  fix j :: int
  assume j: "0 \<le> j" "j < channels B * n"
  have C: "0 < channels B"
  proof (rule ccontr)
    assume "\<not> 0 < channels B"
    then have "channels B = 0" using ctx by (simp add: pad_ctx_def)
    then show False using j by simp
  qed
  have cr: "channels ret = channels B" using ctx by (simp add: pad_ctx_def)
  have d0: "0 \<le> j div channels B" using j C by (simp add: pos_imp_zdiv_nonneg_iff)
  have d1: "j div channels B < n"
    using j C by (intro int_div_less) (auto simp: mult.commute)
  have eq: "offset ret x0 y t 0 + j
      = offset ret (x0 + j div channels B) y t (j mod channels B)"
    using offset_add_in_row[of ret j x0 y t] C j cr by simp
  show "is_margin B xp yp ret (offset ret x0 y t 0 + j)"
    unfolding eq
    by (rule is_margin_offset[OF ctx]) (use C x0 y mar d0 d1 in auto)
qed

lemma wr_keeps_ctx:
  assumes "pad_ctx B alpha xp yp ret" and "wr ret m x y t c v = Some m'"
    and "0 \<le> c" "c < channels B" "0 \<le> x" "x < width B + xp * 2" "0 \<le> y" "y < height B + yp * 2"
    and "x < xp \<or> xp + width B \<le> x \<or> y < yp \<or> yp + height B \<le> y"
    and "\<not> is_margin B xp yp ret i"
  shows "m' i = m i"
  using wr_keeps[OF assms(2) is_margin_offset[OF assms(1,3-9)] assms(10)] .

lemma keeps_interpolate_row:
  assumes ctx: "pad_ctx B alpha xp yp ret" and y: "alpha \<le> y" "y < yp - alpha"
  shows "keeps (\<lambda>i. \<not> is_margin B xp yp ret i) (interpolate_row B alpha xp yp ret t y)"
proof -
  have r: "0 \<le> y" "y < yp" "0 \<le> xp" "0 \<le> height B"
    using ctx y by (auto simp: pad_ctx_def)
  show ?thesis
    unfolding interpolate_row_def Let_def
    apply (intro keeps_seq keeps_for_loop)
    subgoal for x c
      using r by (auto simp: keeps_def split: bind_splits prod.splits
          elim!: wr_keeps_ctx[OF ctx])
    subgoal for c
      by (auto simp: keeps_def split: bind_splits prod.splits)
    subgoal for x c
      using r by (auto simp: keeps_def split: bind_splits prod.splits
          elim!: wr_keeps_ctx[OF ctx])
    done
qed

lemma keeps_top_region_row:
  assumes ctx: "pad_ctx B alpha xp yp ret" and y: "0 \<le> y" "y < alpha"
  shows "keeps (\<lambda>i. \<not> is_margin B xp yp ret i) (top_region_row B alpha xp yp ret t y)"
proof -
  have r: "y < yp" "0 \<le> yp - alpha + y" "yp - alpha + y < yp" "0 \<le> xp" "0 \<le> height B"
    using ctx y by (auto simp: pad_ctx_def)
  show ?thesis
    unfolding top_region_row_def Let_def keeps_def
  proof (intro allI impI)
    fix s s' i
    assume run: "(case s of (m, prev) \<Rightarrow>
        Option.bind (memcpy ret m (offset ret xp y t 0)
            (offset ret xp (y - alpha + height B + yp) t 0) (channels B * width B))
          (\<lambda>m. Option.bind (memcpy ret m (offset ret xp (yp - alpha + y) t 0)
              (offset ret xp (y + yp) t 0) (channels B * width B))
            (\<lambda>m. Some (m, prev)))) = Some s'"
      and i: "\<not> is_margin B xp yp ret i"
    obtain m prev where s: "s = (m, prev)" by (cases s)
    from run s obtain m1 m2 where
      c1: "memcpy ret m (offset ret xp y t 0)
            (offset ret xp (y - alpha + height B + yp) t 0) (channels B * width B) = Some m1"
      and c2: "memcpy ret m1 (offset ret xp (yp - alpha + y) t 0)
            (offset ret xp (y + yp) t 0) (channels B * width B) = Some m2"
      and s': "s' = (m2, prev)"
      by (auto split: bind_splits)
    have "m1 i = m i"
      by (rule memcpy_row_keeps[OF ctx c1 _ _ _ _ _ i]) (use r y in auto)
    moreover have "m2 i = m1 i"
      by (rule memcpy_row_keeps[OF ctx c2 _ _ _ _ _ i]) (use r y in auto)
    ultimately show "fst s' i = fst s i" by (simp add: s s')
  qed
qed

lemma keeps_left_region_strips:
  assumes ctx: "pad_ctx B alpha xp yp ret"
  shows "keeps (\<lambda>i. \<not> is_margin B xp yp ret i) (left_region_strips B alpha xp yp ret t)"
proof -
  have r: "0 \<le> xp" "alpha \<le> xp" "0 \<le> width B" "0 \<le> alpha"
    using ctx by (auto simp: pad_ctx_def)
  show ?thesis
    unfolding left_region_strips_def Let_def
  proof (intro keeps_for_loop)
    fix y x c :: int
    assume b: "0 \<le> y" "y < height B + yp * 2" "0 \<le> x" "x < alpha" "0 \<le> c" "c < channels B"
    show "keeps (\<lambda>i. \<not> is_margin B xp yp ret i)
        (\<lambda>s. case s of (m, prev) \<Rightarrow>
           Option.bind (rd ret m (width B + xp - alpha + x) y t c)
             (\<lambda>a. Option.bind (wr ret m x y t c a)
               (\<lambda>m. Option.bind (rd ret m (xp + x) y t c)
                 (\<lambda>b. Option.bind (wr ret m (xp - alpha + x) y t c b)
                   (\<lambda>m. Some (m, prev))))))"
      unfolding keeps_def
    proof (intro allI impI)
      fix s s' i
      assume run: "(case s of (m, prev) \<Rightarrow>
           Option.bind (rd ret m (width B + xp - alpha + x) y t c)
             (\<lambda>a. Option.bind (wr ret m x y t c a)
               (\<lambda>m. Option.bind (rd ret m (xp + x) y t c)
                 (\<lambda>b. Option.bind (wr ret m (xp - alpha + x) y t c b)
                   (\<lambda>m. Some (m, prev)))))) = Some s'"
        and i: "\<not> is_margin B xp yp ret i"
      obtain m prev where s: "s = (m, prev)" by (cases s)
      from run s obtain a m1 b' m2 where
        w1: "wr ret m x y t c a = Some m1"
        and w2: "wr ret m1 (xp - alpha + x) y t c b' = Some m2"
        and s': "s' = (m2, prev)"
        by (auto split: bind_splits)
      have "m1 i = m i"
        by (rule wr_keeps_ctx[OF ctx w1 _ _ _ _ _ _ _ i]) (use r b in auto)
      moreover have "m2 i = m1 i"
        by (rule wr_keeps_ctx[OF ctx w2 _ _ _ _ _ _ _ i]) (use r b in auto)
      ultimately show "fst s' i = fst s i" by (simp add: s s')
    qed
  qed
qed

lemma keeps_interpolate_column:
  assumes ctx: "pad_ctx B alpha xp yp ret" and x: "alpha \<le> x" "x < xp - alpha"
  shows "keeps (\<lambda>i. \<not> is_margin B xp yp ret i) (interpolate_column B alpha xp yp ret t x)"
proof -
  have r: "0 \<le> x" "x < xp" "0 \<le> width B"
    using ctx x by (auto simp: pad_ctx_def)
  show ?thesis
    unfolding interpolate_column_def Let_def
    apply (intro keeps_seq keeps_for_loop)
    subgoal for y c
      using r by (auto simp: keeps_def split: bind_splits prod.splits
          elim!: wr_keeps_ctx[OF ctx])
    subgoal for c
      by (auto simp: keeps_def split: bind_splits prod.splits)
    subgoal for y c
      using r by (auto simp: keeps_def split: bind_splits prod.splits
          elim!: wr_keeps_ctx[OF ctx])
    done
qed

lemma keeps_right_region:
  assumes ctx: "pad_ctx B alpha xp yp ret"
  shows "keeps (\<lambda>i. \<not> is_margin B xp yp ret i) (right_region B alpha xp yp ret t)"
proof -
  have r: "0 \<le> xp" "0 \<le> width B"
    using ctx by (auto simp: pad_ctx_def)
  show ?thesis
    unfolding right_region_def
  proof (intro keeps_for_loop)
    fix y :: int
    assume y: "0 \<le> y" "y < height B + yp * 2"
    show "keeps (\<lambda>i. \<not> is_margin B xp yp ret i)
        (\<lambda>s. case s of (m, prev) \<Rightarrow>
           Option.bind (memcpy ret m (offset ret (width B + xp) y t 0) (offset ret 0 y t 0)
             (channels B * xp)) (\<lambda>m. Some (m, prev)))"
      unfolding keeps_def
    proof (intro allI impI)
      fix s s' i
      assume run: "(case s of (m, prev) \<Rightarrow>
           Option.bind (memcpy ret m (offset ret (width B + xp) y t 0) (offset ret 0 y t 0)
             (channels B * xp)) (\<lambda>m. Some (m, prev))) = Some s'"
        and i: "\<not> is_margin B xp yp ret i"
      obtain m prev where s: "s = (m, prev)" by (cases s)
      from run s obtain m1 where
        c1: "memcpy ret m (offset ret (width B + xp) y t 0) (offset ret 0 y t 0)
               (channels B * xp) = Some m1"
        and s': "s' = (m1, prev)"
        by (auto split: bind_splits)
      have "m1 i = m i"
        by (rule memcpy_row_keeps[OF ctx c1 _ _ _ _ _ i]) (use r y in auto)
      then show "fst s' i = fst s i" by (simp add: s s')
    qed
  qed
qed

lemma keeps_bottom_region_row:
  assumes ctx: "pad_ctx B alpha xp yp ret" and y: "0 \<le> y" "y < yp"
  shows "keeps (\<lambda>i. \<not> is_margin B xp yp ret i) (bottom_region_row B alpha xp yp ret t y)"
proof -
  have r: "0 \<le> xp" "0 \<le> height B" "0 \<le> width B"
    using ctx y by (auto simp: pad_ctx_def)
  let ?K = "\<lambda>i. \<not> is_margin B xp yp ret i"
  let ?copy = "\<lambda>s. case s of (m, prev) \<Rightarrow>
      Option.bind (memcpy ret m (offset ret xp (y + height B + yp) t 0) (offset ret xp y t 0)
        (channels B * width B)) (\<lambda>m. Some (m, prev))"
  have copy: "keeps ?K ?copy"
    unfolding keeps_def
  proof (intro allI impI)
    fix s s' i
    assume run: "?copy s = Some s'" and i: "?K i"
    obtain m prev where s: "s = (m, prev)" by (cases s)
    from run s obtain m1 where
      c1: "memcpy ret m (offset ret xp (y + height B + yp) t 0) (offset ret xp y t 0)
             (channels B * width B) = Some m1"
      and s': "s' = (m1, prev)"
      by (auto split: bind_splits)
    have "m1 i = m i"
      by (rule memcpy_row_keeps[OF ctx c1 _ _ _ _ _ i]) (use r y in auto)
    then show "fst s' i = fst s i" by (simp add: s s')
  qed
  have eq: "bottom_region_row B alpha xp yp ret t y
      = (\<lambda>s. Option.bind (?copy s) (\<lambda>s. Option.bind (left_region_strips B alpha xp yp ret t s)
          (\<lambda>s. Option.bind (for_loop alpha (xp - alpha)
                 (interpolate_column B alpha xp yp ret t) s)
             (right_region B alpha xp yp ret t))))"
    by (rule ext) (simp add: bottom_region_row_def split: prod.splits bind_splits)
  show ?thesis
    unfolding eq
    by (intro keeps_seq keeps_for_loop copy keeps_left_region_strips keeps_interpolate_column
        keeps_right_region ctx)
qed

lemma keeps_padding_frame:
  assumes ctx: "pad_ctx B alpha xp yp ret"
  shows "keeps (\<lambda>i. \<not> is_margin B xp yp ret i) (padding_frame B alpha xp yp ret t)"
  unfolding padding_frame_def
  by (intro keeps_seq keeps_for_loop keeps_top_region_row keeps_interpolate_row
      keeps_bottom_region_row ctx)

lemma rd_ctx:
  assumes "pad_ctx B alpha xp yp ret"
    and "0 \<le> c" "c < channels B" "0 \<le> x" "x < width B + xp * 2" "0 \<le> y" "y < height B + yp * 2"
    and "0 \<le> t" "t < frames B"
  shows "rd ret m x y t c = Some (m (offset ret x y t c))"
  using assms by (intro rd_in_range) (auto simp: pad_ctx_def)

lemma wr_ctx:
  assumes "pad_ctx B alpha xp yp ret"
    and "0 \<le> c" "c < channels B" "0 \<le> x" "x < width B + xp * 2" "0 \<le> y" "y < height B + yp * 2"
    and "0 \<le> t" "t < frames B"
  shows "wr ret m x y t c v = Some (m(offset ret x y t c := v))"
  using assms by (intro wr_in_range) (auto simp: pad_ctx_def)

lemma offset_row_shift: "offset im x y t 0 + channels im * n = offset im (x + n) y t 0"
  by (simp add: offset_def algebra_simps)

lemma offset_rows_apart:
  assumes "0 \<le> channels im" "0 \<le> width im" "0 \<le> x'" "x \<le> width im" "y < y'"
  shows "offset im x y t 0 \<le> offset im x' y' t 0"
proof -
  have "(t * height im + y) * width im + x \<le> (t * height im + y) * width im + width im"
    using assms by simp
  also have "\<dots> = (t * height im + (y + 1)) * width im" by (simp add: algebra_simps)
  also have "\<dots> \<le> (t * height im + y') * width im"
    using assms by (intro mult_right_mono) auto
  also have "\<dots> \<le> (t * height im + y') * width im + x'" using assms by simp
  finally show ?thesis
    using assms(1) by (simp add: offset_def mult_right_mono)
qed

lemma offset_same_row:
  assumes "0 \<le> channels im" "x \<le> x'"
  shows "offset im x y t 0 \<le> offset im x' y t 0"
  using assms by (simp add: offset_def mult_right_mono)

text \<open>A copy of \<open>n\<close> pixels between two places of the canvas that do not overlap.\<close>

lemma memcpy_total:
  assumes c: "0 \<le> channels im" "0 \<le> width im" "0 \<le> height im"
    and d: "0 \<le> xd" "xd + n \<le> width im" "0 \<le> yd" "yd < height im"
    and s: "0 \<le> xs" "xs + n \<le> width im" "0 \<le> ys" "ys < height im"
    and t: "0 \<le> t" "t < frames im"
    and apart: "yd \<noteq> ys \<or> xd + n \<le> xs \<or> xs + n \<le> xd"
  shows "\<exists>m'. memcpy im m (offset im xd yd t 0) (offset im xs ys t 0) (channels im * n) = Some m'"
proof (cases "channels im * n \<le> 0")
  case True
  then show ?thesis by (simp add: memcpy_def)
next
  case False
  then have n: "0 \<le> n" using c(1)
    by (metis mult_nonneg_nonpos linorder_le_cases)
  have d0: "0 \<le> offset im xd yd t 0" using c d t by (intro offset_nonneg) auto
  have s0: "0 \<le> offset im xs ys t 0" using c s t by (intro offset_nonneg) auto
  have d1: "offset im xd yd t 0 + channels im * n \<le> samples im"
    unfolding offset_row_shift using c d t n by (intro offset_row_end) auto
  have s1: "offset im xs ys t 0 + channels im * n \<le> samples im"
    unfolding offset_row_shift using c s t n by (intro offset_row_end) auto
  have "offset im xd yd t 0 + channels im * n \<le> offset im xs ys t 0
      \<or> offset im xs ys t 0 + channels im * n \<le> offset im xd yd t 0"
  proof -
    consider "yd < ys" | "ys < yd" | "yd = ys" "xd + n \<le> xs" | "yd = ys" "xs + n \<le> xd"
      using apart by linarith
    then show ?thesis
    proof cases
      case 1
      then show ?thesis unfolding offset_row_shift using c d s by (intro disjI1 offset_rows_apart) auto
    next
      case 2
      then show ?thesis unfolding offset_row_shift using c d s by (intro disjI2 offset_rows_apart) auto
    next
      case 3
      then show ?thesis unfolding offset_row_shift using c by (intro disjI1) (simp add: offset_same_row)
    next
      case 4
      then show ?thesis unfolding offset_row_shift using c by (intro disjI2) (simp add: offset_same_row)
    qed
  qed
  then show ?thesis using False d0 s0 d1 s1 by (simp add: memcpy_def)
qed

lemma memcpy_ctx_total:
  assumes "pad_big B alpha xp yp ret t"
    and d: "0 \<le> xd" "xd + n \<le> width B + xp * 2" "0 \<le> yd" "yd < height B + yp * 2"
    and s: "0 \<le> xs" "xs + n \<le> width B + xp * 2" "0 \<le> ys" "ys < height B + yp * 2"
    and apart: "yd \<noteq> ys \<or> xd + n \<le> xs \<or> xs + n \<le> xd"
  shows "\<exists>m'. memcpy ret m (offset ret xd yd t 0) (offset ret xs ys t 0) (channels B * n) = Some m'"
proof -
  have ctx: "pad_ctx B alpha xp yp ret" using assms(1) unfolding pad_big_def by blast
  have cr: "channels B = channels ret" using ctx by (simp add: pad_ctx_def)
  show ?thesis
    unfolding cr
    by (rule memcpy_total) (use assms in \<open>auto simp: pad_big_def pad_ctx_def\<close>)
qed

lemma total_top_region_row:
  assumes big: "pad_big B alpha xp yp ret t" and y: "0 \<le> y" "y < alpha"
  shows "total (top_region_row B alpha xp yp ret t y)"
  unfolding total_def
proof
  fix s :: pad_state
  obtain m prev where s: "s = (m, prev)" by (cases s)
  have r: "alpha = 1" "3 \<le> xp" "3 \<le> yp" "1 \<le> height B" "0 \<le> width B"
    using big by (auto simp: pad_big_def pad_ctx_def)
  obtain m1 where c1: "memcpy ret m (offset ret xp y t 0)
            (offset ret xp (y - alpha + height B + yp) t 0) (channels B * width B) = Some m1"
    using memcpy_ctx_total[OF big, of xp "width B" y xp "y - alpha + height B + yp" m] r y
    by auto
  obtain m2 where c2: "memcpy ret m1 (offset ret xp (yp - alpha + y) t 0)
            (offset ret xp (y + yp) t 0) (channels B * width B) = Some m2"
    using memcpy_ctx_total[OF big, of xp "width B" "yp - alpha + y" xp "y + yp" m1] r y
    by auto
  show "\<exists>s'. top_region_row B alpha xp yp ret t y s = Some s'"
    by (simp add: top_region_row_def s c1 c2)
qed

lemma total_interpolate_row:
  assumes big: "pad_big B alpha xp yp ret t" and y: "alpha \<le> y" "y < yp - alpha"
  shows "total (interpolate_row B alpha xp yp ret t y)"
proof -
  have ctx: "pad_ctx B alpha xp yp ret" using big unfolding pad_big_def by blast
  have r: "alpha = 1" "3 \<le> xp" "3 \<le> yp" "1 \<le> height B" "0 \<le> width B" "0 \<le> t" "t < frames B"
    using big by (auto simp: pad_big_def pad_ctx_def)
  show ?thesis
    unfolding interpolate_row_def Let_def
    apply (intro total_seq total_for_loop)
    subgoal for x c
      using r y by (auto simp: total_def rd_ctx[OF ctx] wr_ctx[OF ctx])
    subgoal for c
      using r y by (auto simp: total_def rd_ctx[OF ctx] wr_ctx[OF ctx])
    subgoal for x c
      using r y by (auto simp: total_def rd_ctx[OF ctx] wr_ctx[OF ctx])
    done
qed

lemma total_left_region_strips:
  assumes big: "pad_big B alpha xp yp ret t"
  shows "total (left_region_strips B alpha xp yp ret t)"
proof -
  have ctx: "pad_ctx B alpha xp yp ret" using big unfolding pad_big_def by blast
  have r: "alpha = 1" "3 \<le> xp" "3 \<le> yp" "1 \<le> height B" "0 \<le> width B" "0 \<le> t" "t < frames B"
    using big by (auto simp: pad_big_def pad_ctx_def)
  show ?thesis
    unfolding left_region_strips_def Let_def
    apply (intro total_for_loop)
    subgoal for y x c
      using r by (auto simp: total_def rd_ctx[OF ctx] wr_ctx[OF ctx])
    done
qed

lemma total_interpolate_column:
  assumes big: "pad_big B alpha xp yp ret t" and x: "alpha \<le> x" "x < xp - alpha"
  shows "total (interpolate_column B alpha xp yp ret t x)"
proof -
  have ctx: "pad_ctx B alpha xp yp ret" using big unfolding pad_big_def by blast
  have r: "alpha = 1" "3 \<le> xp" "3 \<le> yp" "1 \<le> height B" "0 \<le> width B" "0 \<le> t" "t < frames B"
    using big by (auto simp: pad_big_def pad_ctx_def)
  show ?thesis
    unfolding interpolate_column_def Let_def
    apply (intro total_seq total_for_loop)
    subgoal for y c
      using r x by (auto simp: total_def rd_ctx[OF ctx] wr_ctx[OF ctx])
    subgoal for c
      using r x by (auto simp: total_def rd_ctx[OF ctx] wr_ctx[OF ctx])
    subgoal for y c
      using r x by (auto simp: total_def rd_ctx[OF ctx] wr_ctx[OF ctx])
    done
qed

lemma total_right_region:
  assumes big: "pad_big B alpha xp yp ret t"
  shows "total (right_region B alpha xp yp ret t)"
  unfolding right_region_def
proof (intro total_for_loop)
  fix y :: int
  assume y: "0 \<le> y" "y < height B + yp * 2"
  have r: "alpha = 1" "3 \<le> xp" "3 \<le> yp" "1 \<le> height B" "0 \<le> width B"
    using big by (auto simp: pad_big_def pad_ctx_def)
  show "total (\<lambda>s :: pad_state. case s of (m, prev) \<Rightarrow>
           Option.bind (memcpy ret m (offset ret (width B + xp) y t 0) (offset ret 0 y t 0)
             (channels B * xp)) (\<lambda>m. Some (m, prev)))"
    unfolding total_def
  proof
    fix s :: pad_state
    obtain m prev where s: "s = (m, prev)" by (cases s)
    obtain m1 where c1: "memcpy ret m (offset ret (width B + xp) y t 0) (offset ret 0 y t 0)
             (channels B * xp) = Some m1"
      using memcpy_ctx_total[OF big, of "width B + xp" xp y 0 y m] r y by auto
    show "\<exists>s'. (case s of (m, prev) \<Rightarrow>
           Option.bind (memcpy ret m (offset ret (width B + xp) y t 0) (offset ret 0 y t 0)
             (channels B * xp)) (\<lambda>m. Some (m, prev))) = Some s'"
      by (simp add: s c1)
  qed
qed

lemma total_bottom_region_row:
  assumes big: "pad_big B alpha xp yp ret t" and y: "0 \<le> y" "y < yp"
  shows "total (bottom_region_row B alpha xp yp ret t y)"
proof -
  have r: "alpha = 1" "3 \<le> xp" "3 \<le> yp" "1 \<le> height B" "0 \<le> width B"
    using big by (auto simp: pad_big_def pad_ctx_def)
  let ?copy = "\<lambda>s :: pad_state. case s of (m, prev) \<Rightarrow>
      Option.bind (memcpy ret m (offset ret xp (y + height B + yp) t 0) (offset ret xp y t 0)
        (channels B * width B)) (\<lambda>m. Some (m, prev))"
  have copy: "total ?copy"
    unfolding total_def
  proof
    fix s :: pad_state
    obtain m prev where s: "s = (m, prev)" by (cases s)
    obtain m1 where c1: "memcpy ret m (offset ret xp (y + height B + yp) t 0) (offset ret xp y t 0)
        (channels B * width B) = Some m1"
      using memcpy_ctx_total[OF big, of xp "width B" "y + height B + yp" xp y m] r y by auto
    show "\<exists>s'. ?copy s = Some s'" by (simp add: s c1)
  qed
  have eq: "bottom_region_row B alpha xp yp ret t y
      = (\<lambda>s. Option.bind (?copy s) (\<lambda>s. Option.bind (left_region_strips B alpha xp yp ret t s)
          (\<lambda>s. Option.bind (for_loop alpha (xp - alpha)
                 (interpolate_column B alpha xp yp ret t) s)
             (right_region B alpha xp yp ret t))))"
    by (rule ext) (simp add: bottom_region_row_def split: prod.splits bind_splits)
  show ?thesis
    unfolding eq
    by (intro total_seq total_for_loop copy total_left_region_strips total_interpolate_column
        total_right_region big)
qed

lemma total_padding_frame:
  assumes big: "pad_big B alpha xp yp ret t"
  shows "total (padding_frame B alpha xp yp ret t)"
  unfolding padding_frame_def
  by (intro total_seq total_for_loop total_top_region_row total_interpolate_row
      total_bottom_region_row big)

lemma Crop_apply_shape [simp]:
  "width (Crop_apply E im minX minY minT w h f) = w"
  "height (Crop_apply E im minX minY minT w h f) = h"
  "frames (Crop_apply E im minX minY minT w h f) = f"
  "channels (Crop_apply E im minX minY minT w h f) = channels im"
  by (simp_all add: Crop_apply_def Image_def Let_def)

lemma offset_cong:
  "width a = width b \<Longrightarrow> height a = height b \<Longrightarrow> channels a = channels b \<Longrightarrow>
   offset a = offset b"
  by (intro ext) (simp add: offset_def)

lemma Crop_apply_data:
  assumes "0 \<le> c" "c < channels im" "0 \<le> x" "x < w" "0 \<le> y" "y < h"
  shows "data (Crop_apply E im minX minY minT w h f)
           (offset (Crop_apply E im minX minY minT w h f) x y t c)
         = (if 0 \<le> x + minX \<and> x + minX < width im \<and> 0 \<le> y + minY \<and> y + minY < height im
               \<and> 0 \<le> t + minT \<and> t + minT < frames im
            then data im (offset im (x + minX) (y + minY) (t + minT) c)
            else crop_fill E im (x + minX) (y + minY) (t + minT) c)"
proof -
  let ?out = "Image w h f (channels im)"
  have o: "offset (Crop_apply E im minX minY minT w h f) = offset ?out"
    by (rule offset_cong) (simp_all add: Image_def)
  have d: "x_of ?out (offset ?out x y t c) = x" "y_of ?out (offset ?out x y t c) = y"
    "t_of ?out (offset ?out x y t c) = t" "chan_of ?out (offset ?out x y t c) = c"
    using assms
    by (simp_all add: x_of_offset y_of_offset t_of_offset chan_of_offset Image_def)
  show ?thesis
    unfolding o by (simp add: Crop_apply_def Let_def d)
qed

lemma padding_alpha_range:
  assumes "0 \<le> width B" "0 \<le> height B"
  shows "0 \<le> padding_alpha B" "padding_alpha B \<le> 1"
  using assms by (auto simp: padding_alpha_def Let_def)

lemma padding_alpha_big:
  assumes "3 \<le> width B" "3 \<le> height B"
  shows "padding_alpha B = 1"
  using assms by (auto simp: padding_alpha_def Let_def)

lemma padding_margins:
  "padding_alpha B * 3 \<le> x_padding_of B" "padding_alpha B * 3 \<le> y_padding_of B"
  "width B div 2 \<le> x_padding_of B" "height B div 2 \<le> y_padding_of B"
  by (auto simp: x_padding_of_def y_padding_of_def Let_def)

lemma pad_ctx_canvas:
  assumes "0 \<le> width B" "0 \<le> height B" "0 \<le> channels B"
  shows "pad_ctx B (padding_alpha B) (x_padding_of B) (y_padding_of B) (padding_canvas E B)"
  using assms padding_alpha_range[of B] padding_margins[of B]
  by (simp add: pad_ctx_def padding_canvas_def)

lemma padding_loops_keep_interior:
  assumes run: "for_loop 0 (frames B)
        (padding_frame B (padding_alpha B) (x_padding_of B) (y_padding_of B) (padding_canvas E B))
        (data (padding_canvas E B), prev0) = Some (m, prev)"
    and r: "0 \<le> x" "x < width B" "0 \<le> y" "y < height B" "0 \<le> t" "t < frames B"
      "0 \<le> c" "c < channels B"
  shows "m (offset (padding_canvas E B) (x + x_padding_of B) (y + y_padding_of B) t c)
         = data B (offset B x y t c)"
proof -
  let ?ret = "padding_canvas E B"
  let ?xp = "x_padding_of B" and ?yp = "y_padding_of B"
  let ?i = "offset ?ret (x + ?xp) (y + ?yp) t c"
  have ctx: "pad_ctx B (padding_alpha B) ?xp ?yp ?ret"
    using r by (intro pad_ctx_canvas) auto
  have p: "0 \<le> ?xp" "0 \<le> ?yp"
    using ctx by (auto simp: pad_ctx_def)
  have k: "keeps (\<lambda>i. \<not> is_margin B ?xp ?yp ?ret i)
      (for_loop 0 (frames B) (padding_frame B (padding_alpha B) ?xp ?yp ?ret))"
    by (intro keeps_for_loop keeps_padding_frame ctx)
  have xo: "x_of ?ret ?i = x + ?xp"
    using r p ctx by (intro x_of_offset) (auto simp: pad_ctx_def)
  have yo: "y_of ?ret ?i = y + ?yp"
    using r p ctx by (intro y_of_offset) (auto simp: pad_ctx_def)
  have "\<not> is_margin B ?xp ?yp ?ret ?i"
    using r by (simp add: is_margin_def xo yo)
  then have "m ?i = data ?ret ?i"
    using k run unfolding keeps_def by fastforce
  also have "\<dots> = data B (offset B x y t c)"
    unfolding padding_canvas_def
    using r p by (subst Crop_apply_data) auto
  finally show ?thesis .
qed

lemma padding_canvas_shape [simp]:
  "width (padding_canvas E B) = width B + x_padding_of B * 2"
  "height (padding_canvas E B) = height B + y_padding_of B * 2"
  "frames (padding_canvas E B) = frames B"
  "channels (padding_canvas E B) = channels B"
  by (simp_all add: padding_canvas_def)

lemma for_loop_empty: "hi \<le> lo \<Longrightarrow> for_loop lo hi body s = Some s"
  by (simp add: for_loop_def)

lemma padding_loops_total:
  assumes "3 \<le> width B \<and> 3 \<le> height B \<and> 0 \<le> channels B \<or> 0 \<le> width B \<and> 0 \<le> height B \<and> height B \<le> 1"
  shows "\<exists>s'. for_loop 0 (frames B)
        (padding_frame B (padding_alpha B) (x_padding_of B) (y_padding_of B) (padding_canvas E B))
        s = Some s'"
  using assms
proof
  assume big: "3 \<le> width B \<and> 3 \<le> height B \<and> 0 \<le> channels B"
  have ctx: "pad_ctx B (padding_alpha B) (x_padding_of B) (y_padding_of B) (padding_canvas E B)"
    using big by (intro pad_ctx_canvas) auto
  have "total (for_loop 0 (frames B)
        (padding_frame B (padding_alpha B) (x_padding_of B) (y_padding_of B) (padding_canvas E B)))"
  proof (intro total_for_loop total_padding_frame)
    fix t :: int
    assume "0 \<le> t" "t < frames B"
    then show "pad_big B (padding_alpha B) (x_padding_of B) (y_padding_of B) (padding_canvas E B) t"
      using ctx big padding_alpha_big[of B] by (simp add: pad_big_def)
  qed
  then show ?thesis unfolding total_def by blast
next
  assume flat: "0 \<le> width B \<and> 0 \<le> height B \<and> height B \<le> 1"
  then have a: "padding_alpha B = 0" by (auto simp: padding_alpha_def Let_def)
  have y: "y_padding_of B = 0" using flat by (auto simp: y_padding_of_def a Let_def)
  have "total (for_loop 0 (frames B)
        (padding_frame B (padding_alpha B) (x_padding_of B) (y_padding_of B) (padding_canvas E B)))"
    by (intro total_for_loop) (simp add: total_def padding_frame_def a y for_loop_empty)
  then show ?thesis unfolding total_def by blast
qed

lemma applyPadding_total:
  assumes "3 \<le> width B \<and> 3 \<le> height B \<and> 0 \<le> channels B \<or> 0 \<le> width B \<and> 0 \<le> height B \<and> height B \<le> 1"
  shows "\<exists>R. applyPadding E B = Inr R"
proof -
  obtain s' where "for_loop 0 (frames B)
        (padding_frame B (padding_alpha B) (x_padding_of B) (y_padding_of B) (padding_canvas E B))
        (data (padding_canvas E B), (\<lambda>c. 0)) = Some s'"
    using padding_loops_total[OF assms] by blast
  then show ?thesis
    by (cases s') (simp add: applyPadding_def Let_def)
qed

lemma applyPadding_Inr:
  assumes "applyPadding E B = Inr R"
  obtains m prev where
    "for_loop 0 (frames B)
        (padding_frame B (padding_alpha B) (x_padding_of B) (y_padding_of B) (padding_canvas E B))
        (data (padding_canvas E B), (\<lambda>c. 0)) = Some (m, prev)"
    "R = Crop_apply E ((padding_canvas E B)\<lparr>data := m\<rparr>)
           (x_padding_of B div 2) (y_padding_of B div 2) 0
           (width B + x_padding_of B) (height B + y_padding_of B) (frames B)"
  using assms by (auto simp: applyPadding_def Let_def split: option.splits)

lemma applyPadding_shape:
  assumes "applyPadding E B = Inr R"
  shows "width R = width B + x_padding_of B" "height R = height B + y_padding_of B"
    "frames R = frames B" "channels R = channels B"
  using assms by (auto elim!: applyPadding_Inr simp: padding_canvas_def)

text \<open>
  Below 3 rows the routine does not get that far. With \<open>alpha = 0\<close> and \<open>y_padding = 1\<close>
  the loop of line 386 starts at \<open>y = 0\<close> and line 391 reads \<open>ret(x, y - 1, t)\<close>, a row
  before the buffer.
\<close>

lemma applyPadding_two_rows_fault:
  assumes "width B = 3" and "height B = 2" and "frames B = 1" and "channels B = 1"
  shows "applyPadding E B = Inl OutOfBounds"
proof -
  have a: "padding_alpha B = 0" "x_padding_of B = 1" "y_padding_of B = 1"
    using assms by (simp_all add: padding_alpha_def x_padding_of_def y_padding_of_def)
  have "for_loop 0 (frames B) (padding_frame B 0 1 1 (padding_canvas E B)) s = None" for s
    using assms
    by (simp add: for_loop_def padding_frame_def interpolate_row_def upto.simps rd_def
        in_buffer_def offset_def samples_def a split: prod.splits)
  then show ?thesis
    by (simp add: applyPadding_def a Let_def)
qed

text \<open>
  C8. For an input of width \<open>W\<close> and height \<open>H\<close>: \<open>alpha = min(W/3, H/3, 1)\<close>,
  \<open>x_pad = max(W/2, 3 * alpha)\<close>, \<open>y_pad = max(H/2, 3 * alpha)\<close> (integer division); the
  canvas is allocated \<open>(W + 2 * x_pad)\<close> by \<open>(H + 2 * y_pad)\<close> with the frames of the input;
  every image that \<open>applyPadding\<close> returns is the window of that canvas that starts at
  \<open>(x_pad/2, y_pad/2)\<close> and is exactly \<open>(W + x_pad)\<close> by \<open>(H + y_pad)\<close>, with the frames and
  channels of the input; and \<open>applyPadding\<close> does return an image whenever \<open>W \<ge> 3\<close> and
  \<open>H \<ge> 3\<close>.
\<close>

theorem applyPadding_size:
  "(let alpha = min (min (width B div 3) (height B div 3)) 1;
        x_pad = max (width B div 2) (3 * alpha);
        y_pad = max (height B div 2) (3 * alpha)
    in padding_alpha B = alpha \<and> x_padding_of B = x_pad \<and> y_padding_of B = y_pad
       \<and> width (padding_canvas E B) = width B + 2 * x_pad
       \<and> height (padding_canvas E B) = height B + 2 * y_pad
       \<and> frames (padding_canvas E B) = frames B
       \<and> (\<forall>R. applyPadding E B = Inr R \<longrightarrow>
             width R = width B + x_pad \<and> height R = height B + y_pad
             \<and> frames R = frames B \<and> channels R = channels B
             \<and> (\<exists>m. R = Crop_apply E ((padding_canvas E B)\<lparr>data := m\<rparr>)
                         (x_pad div 2) (y_pad div 2) 0
                         (width B + x_pad) (height B + y_pad) (frames B)))
       \<and> (3 \<le> width B \<and> 3 \<le> height B \<and> 0 \<le> channels B \<longrightarrow> (\<exists>R. applyPadding E B = Inr R)))"
proof -
  have a: "padding_alpha B = min (min (width B div 3) (height B div 3)) 1"
    by (auto simp: padding_alpha_def Let_def)
  have x: "x_padding_of B = max (width B div 2) (3 * padding_alpha B)"
    by (auto simp: x_padding_of_def Let_def)
  have y: "y_padding_of B = max (height B div 2) (3 * padding_alpha B)"
    by (auto simp: y_padding_of_def Let_def)
  have s: "width R = width B + x_padding_of B \<and> height R = height B + y_padding_of B
      \<and> frames R = frames B \<and> channels R = channels B
      \<and> (\<exists>m. R = Crop_apply E ((padding_canvas E B)\<lparr>data := m\<rparr>)
                         (x_padding_of B div 2) (y_padding_of B div 2) 0
                         (width B + x_padding_of B) (height B + y_padding_of B) (frames B))"
    if "applyPadding E B = Inr R" for R
    using applyPadding_shape[OF that] that by (auto elim!: applyPadding_Inr)
  have t: "\<exists>R. applyPadding E B = Inr R" if "3 \<le> width B \<and> 3 \<le> height B \<and> 0 \<le> channels B"
    using that by (intro applyPadding_total) auto
  have c: "width (padding_canvas E B) = width B + 2 * x_padding_of B"
    "height (padding_canvas E B) = height B + 2 * y_padding_of B"
    "frames (padding_canvas E B) = frames B"
    by (simp_all add: padding_canvas_def)
  show ?thesis
    unfolding Let_def a[symmetric] x[symmetric] y[symmetric]
    using s t c by blast
qed

theorem applyPadding_size_witness:
  "\<exists>R. applyPadding E_id B_3x3 = Inr R \<and> width R = 6 \<and> height R = 6 \<and> frames R = 1"
  using applyPadding_size[of B_3x3 E_id]
  by (auto simp: B_3x3_def Let_def)

text \<open>
  C7. Whenever \<open>applyPadding\<close> returns an image, cropping it at the offset of the original,
  \<open>(x_pad - x_pad/2, y_pad - y_pad/2)\<close>, to the extent of the original gives an image of the
  shape of the original with exactly the samples of the original. The loops never change a
  sample of the original embedded in the canvas at \<open>(x_pad, y_pad)\<close>: after them it still
  holds what the canvas was allocated with, the sample of the input. And \<open>applyPadding\<close>
  does return an image whenever the width and height are at least 3.
\<close>

theorem applyPadding_keeps_interior:
  "(\<forall>R x y t c. applyPadding E B = Inr R
       \<and> 0 \<le> x \<and> x < width B \<and> 0 \<le> y \<and> y < height B \<and> 0 \<le> t \<and> t < frames B
       \<and> 0 \<le> c \<and> c < channels B \<longrightarrow>
     (let ox = x_padding_of B - x_padding_of B div 2;
          oy = y_padding_of B - y_padding_of B div 2;
          cropped = Crop_apply E R ox oy 0 (width B) (height B) (frames B)
      in width cropped = width B \<and> height cropped = height B \<and> frames cropped = frames B
         \<and> channels cropped = channels B
         \<and> data cropped (offset cropped x y t c) = data B (offset B x y t c)
         \<and> data R (offset R (x + ox) (y + oy) t c) = data B (offset B x y t c)))
   \<and> (\<forall>m prev x y t c. for_loop 0 (frames B)
          (padding_frame B (padding_alpha B) (x_padding_of B) (y_padding_of B) (padding_canvas E B))
          (data (padding_canvas E B), (\<lambda>c. 0)) = Some (m, prev)
        \<and> 0 \<le> x \<and> x < width B \<and> 0 \<le> y \<and> y < height B \<and> 0 \<le> t \<and> t < frames B
        \<and> 0 \<le> c \<and> c < channels B \<longrightarrow>
        m (offset (padding_canvas E B) (x + x_padding_of B) (y + y_padding_of B) t c)
          = data (padding_canvas E B)
              (offset (padding_canvas E B) (x + x_padding_of B) (y + y_padding_of B) t c)
        \<and> data (padding_canvas E B)
              (offset (padding_canvas E B) (x + x_padding_of B) (y + y_padding_of B) t c)
          = data B (offset B x y t c))
   \<and> (3 \<le> width B \<and> 3 \<le> height B \<and> 0 \<le> channels B \<longrightarrow> (\<exists>R. applyPadding E B = Inr R))"
proof -
  let ?xp = "x_padding_of B" and ?yp = "y_padding_of B"
  let ?ret = "padding_canvas E B"
  have canvas: "data ?ret (offset ?ret (x + ?xp) (y + ?yp) t c) = data B (offset B x y t c)"
    if "0 \<le> x" "x < width B" "0 \<le> y" "y < height B" "0 \<le> t" "t < frames B"
      "0 \<le> c" "c < channels B" for x y t c
  proof -
    have "0 \<le> ?xp" "0 \<le> ?yp"
      using that padding_margins(3,4)[of B]
      by (meson order_trans pos_imp_zdiv_nonneg_iff zero_less_numeral less_imp_le le_less_trans)+
    then show ?thesis
      unfolding padding_canvas_def using that by (subst Crop_apply_data) auto
  qed
  have loops: "m (offset ?ret (x + ?xp) (y + ?yp) t c) = data B (offset B x y t c)"
    if "for_loop 0 (frames B) (padding_frame B (padding_alpha B) ?xp ?yp ?ret)
          (data ?ret, (\<lambda>c. 0)) = Some (m, prev)"
      "0 \<le> x" "x < width B" "0 \<le> y" "y < height B" "0 \<le> t" "t < frames B"
      "0 \<le> c" "c < channels B" for m prev x y t c
    using padding_loops_keep_interior[OF that] .
  have crop_back: "(let ox = ?xp - ?xp div 2; oy = ?yp - ?yp div 2;
          cropped = Crop_apply E R ox oy 0 (width B) (height B) (frames B)
      in width cropped = width B \<and> height cropped = height B \<and> frames cropped = frames B
         \<and> channels cropped = channels B
         \<and> data cropped (offset cropped x y t c) = data B (offset B x y t c)
         \<and> data R (offset R (x + ox) (y + oy) t c) = data B (offset B x y t c))"
    if R: "applyPadding E B = Inr R"
      and r: "0 \<le> x" "x < width B" "0 \<le> y" "y < height B" "0 \<le> t" "t < frames B"
      "0 \<le> c" "c < channels B" for R x y t c
  proof -
    obtain m prev where run: "for_loop 0 (frames B)
          (padding_frame B (padding_alpha B) ?xp ?yp ?ret) (data ?ret, (\<lambda>c. 0)) = Some (m, prev)"
      and Req: "R = Crop_apply E (?ret\<lparr>data := m\<rparr>) (?xp div 2) (?yp div 2) 0
           (width B + ?xp) (height B + ?yp) (frames B)"
      using R by (rule applyPadding_Inr)
    have p: "0 \<le> ?xp" "0 \<le> ?yp"
      using pad_ctx_canvas[of B E] r by (auto simp: pad_ctx_def)
    have h: "0 \<le> ?xp - ?xp div 2" "?xp - ?xp div 2 \<le> ?xp" "0 \<le> ?yp - ?yp div 2"
      "?yp - ?yp div 2 \<le> ?yp"
      using p by auto
    have o: "offset (?ret\<lparr>data := m\<rparr>) = offset ?ret"
      by (rule offset_cong) simp_all
    have "data R (offset R (x + (?xp - ?xp div 2)) (y + (?yp - ?yp div 2)) t c)
        = m (offset ?ret (x + ?xp) (y + ?yp) t c)"
      unfolding Req using r p h
      by (subst Crop_apply_data) (auto simp: o)
    then have inR: "data R (offset R (x + (?xp - ?xp div 2)) (y + (?yp - ?yp div 2)) t c)
        = data B (offset B x y t c)"
      using loops[OF run r] by simp
    have sh: "width R = width B + ?xp" "height R = height B + ?yp" "frames R = frames B"
      "channels R = channels B"
      using applyPadding_shape[OF R] by auto
    have "data (Crop_apply E R (?xp - ?xp div 2) (?yp - ?yp div 2) 0 (width B) (height B) (frames B))
            (offset (Crop_apply E R (?xp - ?xp div 2) (?yp - ?yp div 2) 0 (width B) (height B)
               (frames B)) x y t c)
        = data R (offset R (x + (?xp - ?xp div 2)) (y + (?yp - ?yp div 2)) t c)"
      using r h sh by (subst Crop_apply_data) auto
    then show ?thesis using inR sh by (simp add: Let_def)
  qed
  have tot: "\<exists>R. applyPadding E B = Inr R"
    if "3 \<le> width B \<and> 3 \<le> height B \<and> 0 \<le> channels B"
    using that by (intro applyPadding_total) auto
  show ?thesis
    using crop_back loops canvas tot by (intro conjI allI impI) (blast | metis)+
qed

theorem applyPadding_keeps_interior_witness:
  "\<exists>R. applyPadding E_id B_3x3 = Inr R
     \<and> data R (offset R (0 + 2) (0 + 2) 0 0) = data B_3x3 (offset B_3x3 0 0 0 0)
     \<and> data R (offset R (2 + 2) (1 + 2) 0 0) = data B_3x3 (offset B_3x3 2 1 0 0)"
proof -
  have p: "x_padding_of B_3x3 = 3" "y_padding_of B_3x3 = 3"
    by (simp_all add: x_padding_of_def y_padding_of_def padding_alpha_def B_3x3_def)
  have d: "width B_3x3 = 3" "height B_3x3 = 3" "frames B_3x3 = 1" "channels B_3x3 = 1"
    by (simp_all add: B_3x3_def)
  note inst = applyPadding_keeps_interior[of E_id B_3x3, unfolded Let_def p d]
  obtain R where R: "applyPadding E_id B_3x3 = Inr R"
    using inst by auto
  have "data R (offset R (0 + 2) (0 + 2) 0 0) = data B_3x3 (offset B_3x3 0 0 0 0)"
    using inst[THEN conjunct1, rule_format, of R 0 0 0 0] R by simp
  moreover have "data R (offset R (2 + 2) (1 + 2) 0 0) = data B_3x3 (offset B_3x3 2 1 0 0)"
    using inst[THEN conjunct1, rule_format, of R 2 1 0 0] R by simp
  ultimately show ?thesis using R by blast
qed

section \<open>Proofs: shapes and complex elements\<close>

subsection \<open>Shapes of what the services return\<close>

lemma Image_shape [simp]:
  "width (Image w h f c) = w" "height (Image w h f c) = h" "frames (Image w h f c) = f"
  "channels (Image w h f c) = c"
  by (simp_all add: Image_def)

lemma Crop_apply4_shape [simp]:
  "width (Crop_apply4 E im minX minY w h) = w" "height (Crop_apply4 E im minX minY w h) = h"
  "frames (Crop_apply4 E im minX minY w h) = frames im"
  "channels (Crop_apply4 E im minX minY w h) = channels im"
  by (simp_all add: Crop_apply4_def)

lemma ComplexMultiply_apply_shape [simp]:
  "width (ComplexMultiply_apply a b cj) = width a" "height (ComplexMultiply_apply a b cj) = height a"
  "frames (ComplexMultiply_apply a b cj) = frames a"
  "channels (ComplexMultiply_apply a b cj) = channels a"
  by (simp_all add: ComplexMultiply_apply_def)

lemma ComplexDivide_apply_shape [simp]:
  "width (ComplexDivide_apply a b cj) = width a" "height (ComplexDivide_apply a b cj) = height a"
  "frames (ComplexDivide_apply a b cj) = frames a"
  "channels (ComplexDivide_apply a b cj) = channels a"
  by (simp_all add: ComplexDivide_apply_def)

lemma ComplexConjugate_apply_shape [simp]:
  "width (ComplexConjugate_apply a) = width a" "height (ComplexConjugate_apply a) = height a"
  "frames (ComplexConjugate_apply a) = frames a" "channels (ComplexConjugate_apply a) = channels a"
  by (simp_all add: ComplexConjugate_apply_def)

lemma ComplexReal_apply_shape [simp]:
  "width (ComplexReal_apply a) = width a" "height (ComplexReal_apply a) = height a"
  "frames (ComplexReal_apply a) = frames a" "channels (ComplexReal_apply a) = 1"
  by (simp_all add: ComplexReal_apply_def)

lemma RealComplex_apply_shape [simp]:
  "width (RealComplex_apply a) = width a" "height (RealComplex_apply a) = height a"
  "frames (RealComplex_apply a) = frames a" "channels (RealComplex_apply a) = 2"
  by (simp_all add: RealComplex_apply_def)

lemma Transpose_apply_c_t_shape [simp]:
  "width (Transpose_apply_c_t a) = width a" "height (Transpose_apply_c_t a) = height a"
  "frames (Transpose_apply_c_t a) = channels a" "channels (Transpose_apply_c_t a) = frames a"
  by (simp_all add: Transpose_apply_c_t_def Let_def)

lemma Add_apply_shape [simp]:
  "width (Add_apply a b) = width a" "height (Add_apply a b) = height a"
  "frames (Add_apply a b) = frames a" "channels (Add_apply a b) = channels a"
  by (simp_all add: Add_apply_def)

lemma Add_apply_weighted_shape [simp]:
  "width (Add_apply_weighted a b w) = width a" "height (Add_apply_weighted a b w) = height a"
  "frames (Add_apply_weighted a b w) = frames a"
  "channels (Add_apply_weighted a b w) = channels a"
  by (simp_all add: Add_apply_weighted_def)

lemma Subtract_apply_shape [simp]:
  "width (Subtract_apply a b) = width a" "height (Subtract_apply a b) = height a"
  "frames (Subtract_apply a b) = frames a" "channels (Subtract_apply a b) = channels a"
  by (simp_all add: Subtract_apply_def)

lemma Multiply_apply_Elementwise_shape [simp]:
  "width (Multiply_apply_Elementwise a b) = width a"
  "height (Multiply_apply_Elementwise a b) = height a"
  "frames (Multiply_apply_Elementwise a b) = frames a"
  "channels (Multiply_apply_Elementwise a b) = channels a"
  by (simp_all add: Multiply_apply_Elementwise_def)

lemma Scale_apply_shape [simp]:
  "width (Scale_apply a w) = width a" "height (Scale_apply a w) = height a"
  "frames (Scale_apply a w) = frames a" "channels (Scale_apply a w) = channels a"
  by (simp_all add: Scale_apply_def)

lemma Offset_apply_shape [simp]:
  "width (Offset_apply a w) = width a" "height (Offset_apply a w) = height a"
  "frames (Offset_apply a w) = frames a" "channels (Offset_apply a w) = channels a"
  by (simp_all add: Offset_apply_def)

lemma Threshold_apply_shape [simp]:
  "width (Threshold_apply a w) = width a" "height (Threshold_apply a w) = height a"
  "frames (Threshold_apply a w) = frames a" "channels (Threshold_apply a w) = channels a"
  by (simp_all add: Threshold_apply_def)

lemma FFT_apply_shape [simp]:
  "width (FFT_apply E a) = width a" "height (FFT_apply E a) = height a"
  "frames (FFT_apply E a) = frames a" "channels (FFT_apply E a) = channels a"
  by (simp_all add: FFT_apply_def)

lemma IFFT_apply_shape [simp]:
  "width (IFFT_apply E a) = width a" "height (IFFT_apply E a) = height a"
  "frames (IFFT_apply E a) = frames a" "channels (IFFT_apply E a) = channels a"
  by (simp_all add: IFFT_apply_def)

lemma EnlargeKernel_shape [simp]:
  "width (EnlargeKernel E K w h) = w" "height (EnlargeKernel E K w h) = h"
  "frames (EnlargeKernel E K w h) = 1" "channels (EnlargeKernel E K w h) = 2"
  by (simp_all add: EnlargeKernel_def)

lemma ColorConvert_apply_rgb_y_shape [simp]:
  "width (ColorConvert_apply_rgb_y E a) = width a" "height (ColorConvert_apply_rgb_y E a) = height a"
  "frames (ColorConvert_apply_rgb_y E a) = frames a" "channels (ColorConvert_apply_rgb_y E a) = 1"
  by (simp_all add: ColorConvert_apply_rgb_y_def)

lemma Convolve_apply_shape [simp]:
  "width (Convolve_apply E a f b) = width a" "height (Convolve_apply E a f b) = height a"
  "frames (Convolve_apply E a f b) = frames a" "channels (Convolve_apply E a f b) = channels a"
  by (simp_all add: Convolve_apply_def)

text \<open>Offsets, reads and writes depend only on the shape.\<close>

lemma rd_shape:
  assumes "has_shape im w h f c" "0 \<le> ch" "ch < c" "0 \<le> x" "x < w" "0 \<le> y" "y < h"
    "0 \<le> t" "t < f"
  shows "rd im m x y t ch = Some (m (offset im x y t ch))"
  using assms by (intro rd_in_range) (auto simp: has_shape_def)

lemma wr_shape:
  assumes "has_shape im w h f c" "0 \<le> ch" "ch < c" "0 \<le> x" "x < w" "0 \<le> y" "y < h"
    "0 \<le> t" "t < f"
  shows "wr im m x y t ch v = Some (m(offset im x y t ch := v))"
  using assms by (intro wr_in_range) (auto simp: has_shape_def)

lemma assign_taps_total:
  assumes "has_shape F w h 1 2"
    and "\<forall>p \<in> set ps. 0 \<le> fst (fst p) \<and> fst (fst p) < w \<and> 0 \<le> snd (fst p) \<and> snd (fst p) < h"
  shows "\<exists>m'. assign_taps F ps m = Some m'"
  using assms(2)
proof (induction ps arbitrary: m)
  case Nil
  then show ?case by simp
next
  case (Cons p ps)
  have "wr F m (fst (fst p)) (snd (fst p)) 0 0 (snd p)
      = Some (m(offset F (fst (fst p)) (snd (fst p)) 0 0 := snd p))"
    using Cons.prems by (intro wr_shape[OF assms(1)]) auto
  then show ?case using Cons.IH Cons.prems by simp
qed

lemma Cho_taps_in_3x3:
  "\<forall>p \<in> set (Cho_taps i). 0 \<le> fst (fst p) \<and> fst (fst p) < 3 \<and> 0 \<le> snd (fst p) \<and> snd (fst p) < 3"
  by (auto simp: Cho_taps_def)

lemma Cho_FDeriv_total:
  assumes "3 \<le> w" "3 \<le> h"
  shows "\<exists>F. Cho_FDeriv E w h i = Some F \<and> has_shape F w h 1 2"
proof -
  have "\<forall>p \<in> set (Cho_taps i). 0 \<le> fst (fst p) \<and> fst (fst p) < w \<and> 0 \<le> snd (fst p) \<and> snd (fst p) < h"
    using Cho_taps_in_3x3[of i] assms by fastforce
  then obtain m where "assign_taps (Image w h 1 2) (Cho_taps i) (data (Image w h 1 2)) = Some m"
    using assign_taps_total[of "Image w h 1 2" w h "Cho_taps i"] by (auto simp: has_shape_def)
  then show ?thesis by (simp add: Cho_FDeriv_def Let_def has_shape_def)
qed

lemma parts_at_offset:
  assumes "channels a = 2"
  shows "re_at b (offset a x y t 0) = data b (offset a x y t 0)"
    "im_at b (offset a x y t 0) = data b (offset a x y t 1)"
    "re_at b (offset a x y t 1) = data b (offset a x y t 0)"
    "im_at b (offset a x y t 1) = data b (offset a x y t 1)"
    "offset a x y t 0 mod 2 = 0" "offset a x y t 1 mod 2 = 1"
proof -
  have e: "offset a x y t 0 mod 2 = 0" by (simp add: offset_def assms)
  have o1: "offset a x y t 1 = offset a x y t 0 + 1" by (simp add: offset_def)
  have o: "offset a x y t 1 mod 2 = 1" unfolding o1 using e by presburger
  show "re_at b (offset a x y t 0) = data b (offset a x y t 0)" by (simp add: re_at_def e)
  show "im_at b (offset a x y t 0) = data b (offset a x y t 1)" by (simp add: im_at_def e o1)
  show "re_at b (offset a x y t 1) = data b (offset a x y t 0)" by (simp add: re_at_def o) (simp add: o1)
  show "im_at b (offset a x y t 1) = data b (offset a x y t 1)" by (simp add: im_at_def o)
  show "offset a x y t 0 mod 2 = 0" by (rule e)
  show "offset a x y t 1 mod 2 = 1" by (rule o)
qed

lemma offset_eq:
  "width a = width b \<Longrightarrow> height a = height b \<Longrightarrow> channels a = channels b \<Longrightarrow>
   offset a x y t c = offset b x y t c"
  by (simp add: offset_def)

lemma cplx_cong:
  "width a = width b \<Longrightarrow> height a = height b \<Longrightarrow> channels a = channels b \<Longrightarrow> data a = data b \<Longrightarrow>
   cplx a x y t = cplx b x y t"
  by (simp add: cplx_def offset_def)

lemma cplx_ComplexMultiply:
  assumes "channels a = 2" "width b = width a" "height b = height a" "channels b = 2"
  shows "cplx (ComplexMultiply_apply a b cj) x y t
       = (if cj then cplx a x y t * cnj (cplx b x y t) else cplx a x y t * cplx b x y t)"
proof -
  have o: "offset (ComplexMultiply_apply a b cj) x y t c = offset a x y t c"
    "offset b x y t c = offset a x y t c" for c
    using assms by (simp_all add: offset_def)
  show ?thesis
    by (simp add: cplx_def o complex_eq_iff)
       (simp add: ComplexMultiply_apply_def interleave_def parts_at_offset[OF assms(1)])
qed

lemma cplx_ComplexDivide:
  assumes "channels a = 2" "width b = width a" "height b = height a" "channels b = 2"
  shows "cplx (ComplexDivide_apply a b False) x y t = cplx a x y t / cplx b x y t"
proof -
  have o: "offset (ComplexDivide_apply a b False) x y t c = offset a x y t c"
    "offset b x y t c = offset a x y t c" for c
    using assms by (simp_all add: offset_def)
  show ?thesis
    by (simp add: cplx_def o complex_eq_iff Re_divide Im_divide power2_eq_square)
       (simp add: ComplexDivide_apply_def interleave_def parts_at_offset[OF assms(1)])
qed

lemma cplx_ComplexConjugate:
  assumes "channels a = 2"
  shows "cplx (ComplexConjugate_apply a) x y t = cnj (cplx a x y t)"
proof -
  have o: "offset (ComplexConjugate_apply a) x y t c = offset a x y t c" for c
    by (simp add: offset_def)
  show ?thesis
    by (simp add: cplx_def o complex_eq_iff)
       (simp add: ComplexConjugate_apply_def interleave_def parts_at_offset[OF assms(1)])
qed

lemma cplx_Add:
  assumes "width b = width a" "height b = height a" "channels b = channels a"
  shows "cplx (Add_apply a b) x y t = cplx a x y t + cplx b x y t"
proof -
  have o: "offset (Add_apply a b) x y t c = offset a x y t c"
    "offset b x y t c = offset a x y t c" for c
    using assms by (simp_all add: offset_def)
  show ?thesis
    by (simp add: cplx_def o complex_eq_iff) (simp add: Add_apply_def)
qed

lemma cplx_Scale: "cplx (Scale_apply a w) x y t = of_real w * cplx a x y t"
proof -
  have o: "offset (Scale_apply a w) x y t c = offset a x y t c" for c
    by (simp add: offset_def)
  show ?thesis
    by (simp add: cplx_def o complex_eq_iff) (simp add: Scale_apply_def mult.commute)
qed

lemma cplx_Image: "cplx (Image w h f c) x y t = 0"
  by (simp add: cplx_def Image_def complex_eq_iff)

section \<open>Proofs: applyCho2009\<close>

lemma for_loop_unfold: "lo < hi \<Longrightarrow> for_loop lo hi body s = Option.bind (body lo s) (for_loop (lo + 1) hi body)"
  by (simp add: for_loop_def upto_rec1[of lo "hi - 1"] split: option.splits)

lemma for_loop_steps:
  assumes "lo \<le> hi" and "P lo s"
    and step: "\<And>i u. lo \<le> i \<Longrightarrow> i < hi \<Longrightarrow> P i u \<Longrightarrow> \<exists>v. body i u = Some v \<and> P (i + 1) v"
  shows "\<exists>s'. for_loop lo hi body s = Some s' \<and> P hi s'"
  using assms
proof (induction "nat (hi - lo)" arbitrary: lo s)
  case 0
  then have "lo = hi" by simp
  then show ?case using "0.prems"(2) by (simp add: for_loop_empty)
next
  case (Suc n)
  then have lt: "lo < hi" by linarith
  obtain v where v: "body lo s = Some v" "P (lo + 1) v"
    using Suc.prems(3)[of lo s] Suc.prems(2) lt by auto
  have "n = nat (hi - (lo + 1))" using Suc.hyps(2) by linarith
  then obtain s' where "for_loop (lo + 1) hi body v = Some s' \<and> P hi s'"
    using Suc.hyps(1)[of "lo + 1" v] v(2) lt Suc.prems(3) by force
  then show ?case using v(1) lt by (simp add: for_loop_unfold)
qed

lemma Cho_multiply_pixel_step:
  assumes FB: "has_shape FB w h C 2" and FK: "has_shape FK w h 1 2"
    and r: "0 \<le> x" "x < w" "0 \<le> y" "y < h" "0 \<le> t" "t < C"
  shows "Cho_multiply_pixel FB FK t y x (done_below FB FK m0 (offset FB x y t 0))
         = Some (done_below FB FK m0 (offset FB (x + 1) y t 0))"
proof -
  let ?o = "offset FB x y t 0"
  let ?m = "done_below FB FK m0 ?o"
  have ch: "channels FB = 2" "width FB = w" "height FB = h" using FB by (auto simp: has_shape_def)
  have o1: "offset FB x y t 1 = ?o + 1" by (simp add: offset_def)
  have o2: "offset FB (x + 1) y t 0 = ?o + 2" by (simp add: offset_def ch algebra_simps)
  have even: "?o mod 2 = 0" by (simp add: offset_def ch)
  have odd: "(?o + 1) mod 2 = 1" using even by presburger
  have nn: "0 \<le> ?o" using r ch by (intro offset_nonneg) auto
  have dx0: "x_of FB ?o = x" using r ch by (intro x_of_offset) auto
  have dy0: "y_of FB ?o = y" using r ch by (intro y_of_offset) auto
  have dx1: "x_of FB (?o + 1) = x" unfolding o1[symmetric] using r ch by (intro x_of_offset) auto
  have dy1: "y_of FB (?o + 1) = y" unfolding o1[symmetric] using r ch by (intro y_of_offset) auto
  have r0: "rd FB ?m x y t 0 = Some (m0 ?o)"
    using r by (subst rd_shape[OF FB]) (auto simp: done_below_def)
  have r1: "rd FB ?m x y t 1 = Some (m0 (?o + 1))"
    using r by (subst rd_shape[OF FB]) (auto simp: done_below_def o1)
  have k0: "rd FK (data FK) x y 0 0 = Some (data FK (offset FK x y 0 0))"
    using r by (subst rd_shape[OF FK]) auto
  have k1: "rd FK (data FK) x y 0 1 = Some (data FK (offset FK x y 0 1))"
    using r by (subst rd_shape[OF FK]) auto
  have w1: "wr FB m x y t 1 v = Some (m(?o + 1 := v))" for m v
    using r by (subst wr_shape[OF FB]) (auto simp: o1)
  have w0: "wr FB m x y t 0 v = Some (m(?o := v))" for m v
    using r by (subst wr_shape[OF FB]) auto
  have "(?m(?o + 1 := m0 ?o * data FK (offset FK x y 0 1) + m0 (?o + 1) * data FK (offset FK x y 0 0),
            ?o := m0 ?o * data FK (offset FK x y 0 0) - m0 (?o + 1) * data FK (offset FK x y 0 1)))
        = done_below FB FK m0 (?o + 2)"
  proof
    fix j
    consider "j = ?o" | "j = ?o + 1" | "j < ?o" | "?o + 2 \<le> j" by linarith
    then show "(?m(?o + 1 := m0 ?o * data FK (offset FK x y 0 1) + m0 (?o + 1) * data FK (offset FK x y 0 0),
            ?o := m0 ?o * data FK (offset FK x y 0 0) - m0 (?o + 1) * data FK (offset FK x y 0 1))) j
        = done_below FB FK m0 (?o + 2) j"
    proof cases
      case 1
      then show ?thesis using nn even by (simp add: done_below_def Cho_product_def dx0 dy0)
    next
      case 2
      then show ?thesis using nn odd by (simp add: done_below_def Cho_product_def dx1 dy1)
    next
      case 3
      then show ?thesis by (simp add: done_below_def)
    next
      case 4
      then show ?thesis by (simp add: done_below_def)
    qed
  qed
  then show ?thesis
    unfolding o2 by (simp add: Cho_multiply_pixel_def r0 r1 k0 k1 w0 w1 Let_def)
qed

lemma Cho_multiply_result:
  assumes FB: "has_shape FB w h C 2" and FK: "has_shape FK w h 1 2"
    and B: "width B = w" "height B = h" "channels B = C" and nn: "0 \<le> w" "0 \<le> h" "0 \<le> C"
  shows "Cho_multiply B FB FK = Some (done_below FB FK (data FB) (samples FB))"
proof -
  let ?D = "done_below FB FK (data FB)"
  have ch: "channels FB = 2" "width FB = w" "height FB = h" "frames FB = C"
    using FB by (auto simp: has_shape_def)
  have row: "\<exists>s'. for_loop 0 w (\<lambda>x. Cho_multiply_pixel FB FK t y x) (?D (offset FB 0 y t 0)) = Some s'
        \<and> s' = ?D (offset FB w y t 0)"
    if "0 \<le> y" "y < h" "0 \<le> t" "t < C" for y t
    by (rule for_loop_steps[where P = "\<lambda>x m. m = ?D (offset FB x y t 0)"])
       (use nn that Cho_multiply_pixel_step[OF FB FK] in auto)
  have rowend: "offset FB w y t 0 = offset FB 0 (y + 1) t 0" for y t
    by (simp add: offset_def ch algebra_simps)
  have frame: "\<exists>s'. for_loop 0 h (\<lambda>y. for_loop 0 w (\<lambda>x. Cho_multiply_pixel FB FK t y x))
          (?D (offset FB 0 0 t 0)) = Some s' \<and> s' = ?D (offset FB 0 h t 0)"
    if "0 \<le> t" "t < C" for t
    by (rule for_loop_steps[where P = "\<lambda>y m. m = ?D (offset FB 0 y t 0)"])
       (use nn that row rowend in auto)
  have frameend: "offset FB 0 h t 0 = offset FB 0 0 (t + 1) 0" for t
    by (simp add: offset_def ch algebra_simps)
  have all: "\<exists>s'. for_loop 0 C (\<lambda>t. for_loop 0 h (\<lambda>y. for_loop 0 w
          (\<lambda>x. Cho_multiply_pixel FB FK t y x))) (?D (offset FB 0 0 0 0)) = Some s'
        \<and> s' = ?D (offset FB 0 0 C 0)"
    by (rule for_loop_steps[where P = "\<lambda>t m. m = ?D (offset FB 0 0 t 0)"])
       (use nn frame frameend in auto)
  have start: "?D (offset FB 0 0 0 0) = data FB"
    by (intro ext) (simp add: done_below_def offset_def)
  have fin: "offset FB 0 0 C 0 = samples FB"
    by (simp add: offset_def samples_def ch algebra_simps)
  show ?thesis
    using all unfolding start fin by (simp add: Cho_multiply_def B)
qed

lemma Cho_D_shape:
  assumes "3 \<le> w" "3 \<le> h"
  shows "Cho_FDeriv E w h i = Some (Cho_D E w h i)" "has_shape (Cho_D E w h i) w h 1 2"
  using Cho_FDeriv_total[OF assms, of E i] by (auto simp: Cho_D_def)

lemma Cho_filter_step_result:
  assumes wh: "3 \<le> w" "3 \<le> h" and B: "width B = w" "height B = h"
    and S: "has_shape S w h 1 2" and G: "has_shape G w h 1 2"
  shows "\<exists>S' G'. Cho_filter_step E B i (S, G) = Some (S', G')
     \<and> has_shape S' w h 1 2 \<and> has_shape G' w h 1 2
     \<and> (\<forall>x y. cplx S' x y 0
           = cplx S x y 0 + of_real (Cho_w i * (cmod (cplx (Cho_D E w h i) x y 0))\<^sup>2)
         \<and> cplx G' x y 0
           = cplx G x y 0 + of_real (if i = 1 \<or> i = 3
                                      then (cmod (cplx (Cho_D E w h i) x y 0))\<^sup>2 else 0))"
proof -
  let ?D = "Cho_D E w h i"
  let ?D2 = "ComplexMultiply_apply ?D ?D True"
  have D: "Cho_FDeriv E w h i = Some ?D" "has_shape ?D w h 1 2"
    using Cho_D_shape[OF wh] by auto
  have sh: "channels ?D = 2" "width ?D = w" "height ?D = h" "channels S = 2" "width S = w"
    "height S = h" "channels G = 2" "width G = w" "height G = h"
    using D(2) S G by (auto simp: has_shape_def)
  have d2: "cplx ?D2 x y 0 = of_real ((cmod (cplx ?D x y 0))\<^sup>2)" for x y
    by (simp add: cplx_ComplexMultiply sh complex_norm_square[symmetric] del: of_real_power)
  have s': "cplx (Add_apply S (Scale_apply ?D2 (Cho_w i))) x y 0
      = cplx S x y 0 + of_real (Cho_w i * (cmod (cplx ?D x y 0))\<^sup>2)" for x y
    by (simp add: cplx_Add cplx_Scale sh d2)
  have g': "cplx (if i = 1 \<or> i = 3 then Add_apply G ?D2 else G) x y 0
      = cplx G x y 0 + of_real (if i = 1 \<or> i = 3 then (cmod (cplx ?D x y 0))\<^sup>2 else 0)" for x y
    by (simp add: cplx_Add sh d2)
  have "Cho_filter_step E B i (S, G)
      = Some (Add_apply S (Scale_apply ?D2 (Cho_w i)), if i = 1 \<or> i = 3 then Add_apply G ?D2 else G)"
    by (simp add: Cho_filter_step_def B D(1) Let_def)
  moreover have "has_shape (Add_apply S (Scale_apply ?D2 (Cho_w i))) w h 1 2"
    "has_shape (if i = 1 \<or> i = 3 then Add_apply G ?D2 else G) w h 1 2"
    using S G by (auto simp: has_shape_def)
  ultimately show ?thesis using s' g' by blast
qed

lemma sum_list_upto_snoc:
  fixes f :: "int \<Rightarrow> 'a::comm_monoid_add"
  assumes "0 \<le> i"
  shows "(\<Sum>j\<leftarrow>[0..i]. f j) = (\<Sum>j\<leftarrow>[0..i - 1]. f j) + f i"
  using upto_rec2[of 0 i] assms by simp

lemma Cho_filter_loop_result:
  assumes wh: "3 \<le> w" "3 \<le> h" and B: "width B = w" "height B = h"
  shows "\<exists>S G. for_loop 0 (5 + 1) (Cho_filter_step E B) (Image w h 1 2, Image w h 1 2) = Some (S, G)
     \<and> has_shape S w h 1 2 \<and> has_shape G w h 1 2
     \<and> (\<forall>x y. cplx S x y 0 = of_real (Cho_SumDeriv_at E w h 5 x y)
             \<and> cplx G x y 0 = of_real (Cho_SumGrad_at E w h 5 x y))"
proof -
  let ?P = "\<lambda>i s. has_shape (fst s) w h 1 2 \<and> has_shape (snd s) w h 1 2
     \<and> (\<forall>x y. cplx (fst s) x y 0 = of_real (Cho_SumDeriv_at E w h (i - 1) x y)
             \<and> cplx (snd s) x y 0 = of_real (Cho_SumGrad_at E w h (i - 1) x y))"
  have "\<exists>s'. for_loop 0 (5 + 1) (Cho_filter_step E B) (Image w h 1 2, Image w h 1 2) = Some s'
      \<and> ?P (5 + 1) s'"
  proof (rule for_loop_steps[where P = ?P])
    show "(0::int) \<le> 5 + 1" by simp
    show "?P 0 (Image w h 1 2, Image w h 1 2)"
      by (simp add: has_shape_def cplx_Image Cho_SumDeriv_at_def Cho_SumGrad_at_def)
  next
    fix i :: int and u :: "image \<times> image"
    assume i: "0 \<le> i" "i < 5 + 1" and P: "?P i u"
    obtain S G where u: "u = (S, G)" by (cases u)
    obtain S' G' where step: "Cho_filter_step E B i (S, G) = Some (S', G')"
      "has_shape S' w h 1 2" "has_shape G' w h 1 2"
      "\<And>x y. cplx S' x y 0
           = cplx S x y 0 + of_real (Cho_w i * (cmod (cplx (Cho_D E w h i) x y 0))\<^sup>2)"
      "\<And>x y. cplx G' x y 0
           = cplx G x y 0 + of_real (if i = 1 \<or> i = 3
                                      then (cmod (cplx (Cho_D E w h i) x y 0))\<^sup>2 else 0)"
      using Cho_filter_step_result[OF wh B, of S G E i] P u by auto
    have "?P (i + 1) (S', G')"
      using step(2-5) P u i
      by (simp add: Cho_SumDeriv_at_def Cho_SumGrad_at_def sum_list_upto_snoc[OF i(1)])
    then show "\<exists>v. Cho_filter_step E B i u = Some v \<and> ?P (i + 1) v"
      using step(1) u by blast
  qed
  then show ?thesis by auto
qed

lemma Cho_solve_shape:
  assumes "Cho_solve E Blurred K B = Some R"
  shows "width R = width Blurred" "height R = height Blurred" "frames R = frames Blurred"
    "channels R = channels B"
  using assms
  by (auto simp: Cho_solve_def Let_def split: bind_splits prod.splits)

lemma cplx_done_below:
  assumes FB: "has_shape FB w h C 2" and FK: "has_shape FK w h 1 2"
    and r: "0 \<le> x" "x < w" "0 \<le> y" "y < h" "0 \<le> t" "t < C"
  shows "cplx (FB\<lparr>data := done_below FB FK (data FB) (samples FB)\<rparr>) x y t
       = cplx FB x y t * cplx FK x y 0"
proof -
  let ?o = "offset FB x y t 0"
  have ch: "channels FB = 2" "width FB = w" "height FB = h" "frames FB = C"
    using FB by (auto simp: has_shape_def)
  have o1: "offset FB x y t 1 = ?o + 1" by (simp add: offset_def)
  have even: "?o mod 2 = 0" by (simp add: offset_def ch)
  have odd: "(?o + 1) mod 2 = 1" using even by presburger
  have b0: "in_buffer FB ?o" using r ch by (intro offset_in_buffer) auto
  have b1: "in_buffer FB (?o + 1)" unfolding o1[symmetric] using r ch by (intro offset_in_buffer) auto
  have dx0: "x_of FB ?o = x" using r ch by (intro x_of_offset) auto
  have dy0: "y_of FB ?o = y" using r ch by (intro y_of_offset) auto
  have dx1: "x_of FB (?o + 1) = x" unfolding o1[symmetric] using r ch by (intro x_of_offset) auto
  have dy1: "y_of FB (?o + 1) = y" unfolding o1[symmetric] using r ch by (intro y_of_offset) auto
  have o: "offset (FB\<lparr>data := m\<rparr>) x y t c = offset FB x y t c" for m c
    by (simp add: offset_def)
  show ?thesis
    using b0 b1 even odd
    by (simp add: cplx_def o o1 complex_eq_iff done_below_def in_buffer_def Cho_product_def
        dx0 dy0 dx1 dy1 Let_def)
qed

lemma Cho_solve_result:
  assumes wh: "3 \<le> width B" "3 \<le> height B" and c: "0 \<le> channels B" and f: "frames B = 1"
  shows "Cho_solve E Blurred K B
       = Some (Crop_apply E (Transpose_apply_c_t (ComplexReal_apply (IFFT_apply E (Cho_spectrum E K B))))
            ((width B - width Blurred) div 2) ((height B - height Blurred) div 2) 0
            (width Blurred) (height Blurred) (frames Blurred))"
    and "has_shape (Cho_spectrum E K B) (width B) (height B) (channels B) 2"
    and "\<And>x y t. 0 \<le> x \<Longrightarrow> x < width B \<Longrightarrow> 0 \<le> y \<Longrightarrow> y < height B \<Longrightarrow> 0 \<le> t \<Longrightarrow> t < channels B \<Longrightarrow>
         cplx (Cho_spectrum E K B) x y t
         = cplx (FFT_apply E (RealComplex_apply (Transpose_apply_c_t B))) x y t
           * (cnj (cplx (FFT_apply E (EnlargeKernel E K (width B) (height B))) x y 0)
                * of_real (Cho_SumDeriv_at E (width B) (height B) 5 x y)
              / (cplx (FFT_apply E (EnlargeKernel E K (width B) (height B))) x y 0
                   * cnj (cplx (FFT_apply E (EnlargeKernel E K (width B) (height B))) x y 0)
                   * of_real (Cho_SumDeriv_at E (width B) (height B) 5 x y)
                 + of_real Cho_alpha * of_real (Cho_SumGrad_at E (width B) (height B) 5 x y)))"
proof -
  let ?w = "width B" and ?h = "height B"
  let ?FK = "FFT_apply E (EnlargeKernel E K ?w ?h)"
  let ?FB = "FFT_apply E (RealComplex_apply (Transpose_apply_c_t B))"
  obtain S G where loop: "for_loop 0 (5 + 1) (Cho_filter_step E B) (Image ?w ?h 1 2, Image ?w ?h 1 2)
        = Some (S, G)"
    and S: "has_shape S ?w ?h 1 2" and G: "has_shape G ?w ?h 1 2"
    and SG: "\<And>x y. cplx S x y 0 = of_real (Cho_SumDeriv_at E ?w ?h 5 x y)"
      "\<And>x y. cplx G x y 0 = of_real (Cho_SumGrad_at E ?w ?h 5 x y)"
    using Cho_filter_loop_result[OF wh refl refl, of E] by blast
  have loop': "for_loop 0 6 (Cho_filter_step E B) (Image ?w ?h 1 2, Image ?w ?h 1 2) = Some (S, G)"
    using loop by simp
  let ?FKf = "ComplexDivide_apply (ComplexMultiply_apply (ComplexConjugate_apply ?FK) S False)
                 (Add_apply (ComplexMultiply_apply (ComplexMultiply_apply ?FK ?FK True) S False)
                    (Scale_apply G Cho_alpha)) False"
  have shS: "width S = ?w" "height S = ?h" "channels S = 2" "width G = ?w" "height G = ?h"
    "channels G = 2"
    using S G by (auto simp: has_shape_def)
  have FKf_shape: "has_shape ?FKf ?w ?h 1 2" by (simp add: has_shape_def)
  have FB_shape: "has_shape ?FB ?w ?h (channels B) 2" by (simp add: has_shape_def f)
  have spec: "Cho_spectrum E K B = ?FB\<lparr>data := done_below ?FB ?FKf (data ?FB) (samples ?FB)\<rparr>"
    by (simp add: Cho_spectrum_def Let_def loop')
  have mult: "Cho_multiply B ?FB ?FKf = Some (done_below ?FB ?FKf (data ?FB) (samples ?FB))"
    by (rule Cho_multiply_result[OF FB_shape FKf_shape]) (use wh c in auto)
  show "Cho_solve E Blurred K B
       = Some (Crop_apply E (Transpose_apply_c_t (ComplexReal_apply (IFFT_apply E (Cho_spectrum E K B))))
            ((width B - width Blurred) div 2) ((height B - height Blurred) div 2) 0
            (width Blurred) (height Blurred) (frames Blurred))"
    unfolding spec by (simp add: Cho_solve_def Let_def loop' mult)
  show "has_shape (Cho_spectrum E K B) ?w ?h (channels B) 2"
    unfolding spec by (simp add: has_shape_def f)
  fix x y t
  assume r: "0 \<le> x" "x < ?w" "0 \<le> y" "y < ?h" "0 \<le> t" "t < channels B"
  have "cplx (Cho_spectrum E K B) x y t = cplx ?FB x y t * cplx ?FKf x y 0"
    unfolding spec by (rule cplx_done_below[OF FB_shape FKf_shape r])
  also have "cplx ?FKf x y 0
      = cnj (cplx ?FK x y 0) * of_real (Cho_SumDeriv_at E ?w ?h 5 x y)
        / (cplx ?FK x y 0 * cnj (cplx ?FK x y 0) * of_real (Cho_SumDeriv_at E ?w ?h 5 x y)
           + of_real Cho_alpha * of_real (Cho_SumGrad_at E ?w ?h 5 x y))"
    by (simp add: cplx_ComplexDivide cplx_ComplexMultiply cplx_ComplexConjugate cplx_Add cplx_Scale
        shS SG)
  finally show "cplx (Cho_spectrum E K B) x y t
         = cplx ?FB x y t
           * (cnj (cplx ?FK x y 0) * of_real (Cho_SumDeriv_at E ?w ?h 5 x y)
              / (cplx ?FK x y 0 * cnj (cplx ?FK x y 0) * of_real (Cho_SumDeriv_at E ?w ?h 5 x y)
                 + of_real Cho_alpha * of_real (Cho_SumGrad_at E ?w ?h 5 x y)))" .
qed


lemma applyCho2009_Inr:
  assumes "applyCho2009 E Blurred K = (Inr R, fs)"
  obtains B where "width K mod 2 = 1" "height K mod 2 = 1" "channels K = 1" "frames K = 1"
    "frames Blurred = 1" "applyPadding E Blurred = Inr B" "Cho_solve E Blurred K B = Some R"
    "fs = [(''padded.tmp'', B)]"
  using assms
  by (auto simp: applyCho2009_def Let_def FileTMP_save_def split: if_splits sum.splits option.splits)

lemma applyCho2009_returns:
  assumes valid: "width K mod 2 = 1 \<and> height K mod 2 = 1 \<and> channels K = 1 \<and> frames K = 1
      \<and> frames Blurred = 1"
    and big: "3 \<le> width Blurred \<and> 3 \<le> height Blurred \<and> 0 \<le> channels Blurred"
  obtains B where "applyPadding E Blurred = Inr B"
    "3 \<le> width B" "3 \<le> height B" "channels B = channels Blurred" "frames B = 1"
    "applyCho2009 E Blurred K
       = (Inr (Crop_apply E (Transpose_apply_c_t (ComplexReal_apply (IFFT_apply E (Cho_spectrum E K B))))
            ((width B - width Blurred) div 2) ((height B - height Blurred) div 2) 0
            (width Blurred) (height Blurred) (frames Blurred)), [(''padded.tmp'', B)])"
proof -
  obtain B where B: "applyPadding E Blurred = Inr B"
    using applyPadding_total[of Blurred E] big by auto
  have sh: "width B = width Blurred + x_padding_of Blurred"
    "height B = height Blurred + y_padding_of Blurred" "frames B = frames Blurred"
    "channels B = channels Blurred"
    using applyPadding_shape[OF B] by auto
  have p: "0 \<le> x_padding_of Blurred" "0 \<le> y_padding_of Blurred"
    using pad_ctx_canvas[of Blurred E] big by (auto simp: pad_ctx_def)
  have wh: "3 \<le> width B" "3 \<le> height B" using sh p big by auto
  have solve: "Cho_solve E Blurred K B
       = Some (Crop_apply E (Transpose_apply_c_t (ComplexReal_apply (IFFT_apply E (Cho_spectrum E K B))))
            ((width B - width Blurred) div 2) ((height B - height Blurred) div 2) 0
            (width Blurred) (height Blurred) (frames Blurred))"
    by (rule Cho_solve_result(1)) (use wh sh big valid in auto)
  show ?thesis
    by (rule that[OF B wh]) (use sh valid solve B in \<open>auto simp: applyCho2009_def FileTMP_save_def\<close>)
qed

text \<open>
  C5. Every image the closed-form solver returns has the width, height, channel count and
  frame count of the blurred input; and for every valid input (odd single-channel
  single-frame kernel, single-frame blurred image) of width and height at least 3 the solver
  does return an image.
\<close>

theorem Cho_result_extent:
  "(\<forall>R fs. applyCho2009 E Blurred K = (Inr R, fs) \<longrightarrow>
       width R = width Blurred \<and> height R = height Blurred
       \<and> channels R = channels Blurred \<and> frames R = frames Blurred)
   \<and> (width K mod 2 = 1 \<and> height K mod 2 = 1 \<and> channels K = 1 \<and> frames K = 1
        \<and> frames Blurred = 1
        \<and> 3 \<le> width Blurred \<and> 3 \<le> height Blurred \<and> 0 \<le> channels Blurred \<longrightarrow>
      (\<exists>R fs. applyCho2009 E Blurred K = (Inr R, fs)))"
proof (intro conjI allI impI)
  fix R fs
  assume run: "applyCho2009 E Blurred K = (Inr R, fs)"
  obtain B where B: "applyPadding E Blurred = Inr B" "Cho_solve E Blurred K B = Some R"
    using run by (rule applyCho2009_Inr)
  show "width R = width Blurred" "height R = height Blurred" "channels R = channels Blurred"
    "frames R = frames Blurred"
    using Cho_solve_shape[OF B(2)] applyPadding_shape[OF B(1)] by auto
next
  assume a: "width K mod 2 = 1 \<and> height K mod 2 = 1 \<and> channels K = 1 \<and> frames K = 1
        \<and> frames Blurred = 1
        \<and> 3 \<le> width Blurred \<and> 3 \<le> height Blurred \<and> 0 \<le> channels Blurred"
  obtain B where "applyCho2009 E Blurred K
       = (Inr (Crop_apply E (Transpose_apply_c_t (ComplexReal_apply (IFFT_apply E (Cho_spectrum E K B))))
            ((width B - width Blurred) div 2) ((height B - height Blurred) div 2) 0
            (width Blurred) (height Blurred) (frames Blurred)), [(''padded.tmp'', B)])"
    using applyCho2009_returns[of K Blurred E] a by metis
  then show "\<exists>R fs. applyCho2009 E Blurred K = (Inr R, fs)" by blast
qed

theorem Cho_result_extent_witness:
  "\<exists>R fs. applyCho2009 E_id B_3x3 K_1x1 = (Inr R, fs)
     \<and> width R = 3 \<and> height R = 3 \<and> channels R = 1 \<and> frames R = 1"
  using Cho_result_extent[of E_id B_3x3 K_1x1]
  by (auto simp: B_3x3_def K_1x1_def)



section \<open>Proofs: applyShan2008\<close>

lemma rd_covers:
  assumes "covers im w h c" "0 \<le> ch" "ch < c" "0 \<le> x" "x < w" "0 \<le> y" "y < h"
  shows "rd im m x y 0 ch = Some (m (offset im x y 0 ch))"
  using assms by (intro rd_in_range) (auto simp: covers_def)

lemma covers_has_shape: "has_shape im w h 1 c \<Longrightarrow> c' \<le> c \<Longrightarrow> covers im w h c'"
  by (simp add: covers_def has_shape_def)

lemma total_Shan_Psi_x_pixel:
  assumes "covers dLdx w h 1" "covers dIdx' w h 1" "covers sm w h 1" "has_shape Px w h 1 2"
    and "0 \<le> x" "x < w" "0 \<le> y" "y < h"
  shows "total (Shan_Psi_x_pixel g l1 l2 dLdx dIdx' sm Px y x)"
  using assms
  by (auto simp: total_def Shan_Psi_x_pixel_def rd_covers[where w = w and h = h and c = 1]
      wr_shape[where w = w and h = h and f = 1 and c = 2] Let_def)

lemma total_Shan_Psi_y_pixel:
  assumes "covers dLdy w h 1" "covers dIdy' w h 1" "covers sm w h 1" "has_shape Py w h 1 2"
    and "0 \<le> x" "x < w" "0 \<le> y" "y < h"
  shows "total (Shan_Psi_y_pixel g l1 l2 dLdy dIdy' sm Py y x)"
  using assms
  by (auto simp: total_def Shan_Psi_y_pixel_def rd_covers[where w = w and h = h and c = 1]
      wr_shape[where w = w and h = h and f = 1 and c = 2] Let_def)

lemma total_Shan_append_pixel:
  assumes "covers F1 w h 2" "covers F3 w h 2" "covers FPx w h 2" "covers FPy w h 2"
    and "has_shape den w h 1 2" "has_shape num w h 1 2"
    and "0 \<le> x" "x < w" "0 \<le> y" "y < h"
  shows "total (Shan_append_pixel g F1 F3 FPx FPy den num y x)"
  using assms
  by (auto simp: total_def Shan_append_pixel_def rd_covers[where w = w and h = h and c = 2]
      rd_shape[where w = w and h = h and f = 1 and c = 2]
      wr_shape[where w = w and h = h and f = 1 and c = 2] Let_def)

lemma Shan_round_schedule:
  assumes "Shan_round E C i s = Some s'"
  shows "lambda_1 s' = lambda_1 s / (12 / 10)" "lambda_2 s' = lambda_2 s / (15 / 10)"
    "gamma s' = gamma s * 2" "has_shape (L s') (width (B_large C)) (height (B_large C)) 1 1
       \<or> \<not> has_shape (numerator_base (bases C)) (width (B_large C)) (height (B_large C)) 1 2"
    "channels (L s') = 1"
    "frames (L s') = frames (numerator_base (bases C))"
    "saved s' = saved s @ [(output_filename i, L s')]"
  using assms
  by (auto simp: Shan_round_def Let_def FileTMP_save_def has_shape_def
      split: bind_splits prod.splits)

lemma Shan_round_total:
  assumes sh: "shan_shapes w h C s"
  shows "\<exists>s'. Shan_round E C i s = Some s' \<and> shan_shapes w h C s'"
proof -
  let ?scan = "\<lparr>fscore = 0, ans = 0, fscore_valid = False\<rparr>"
  let ?dLdx = "Convolve_apply E (L s) (Crop_apply4 E (FDeriv (bases C) 1) (- 1) 0 3 1) Wrap"
  let ?dLdy = "Convolve_apply E (L s) (Crop_apply4 E (FDeriv (bases C) 3) 0 (- 1) 1 3) Wrap"
  have B: "width (B_large C) = w" "height (B_large C) = h"
    and c: "covers (smoothness_map C) w h 1" "covers (dIdx C) w h 1" "covers (dIdy C) w h 1"
      "covers (FDeriv (bases C) 1) w h 2" "covers (FDeriv (bases C) 3) w h 2"
      "has_shape (denominator_base (bases C)) w h 1 2"
      "has_shape (numerator_base (bases C)) w h 1 2"
      "covers (L s) w h 1" "has_shape (Psi_x s) w h 1 2" "has_shape (Psi_y s) w h 1 2"
    using sh by (auto simp: shan_shapes_def)
  have dL: "covers ?dLdx w h 1" "covers ?dLdy w h 1"
    using c(8) by (auto simp: covers_def)
  have "total (for_loop 0 h (\<lambda>y. for_loop 0 w
        (Shan_Psi_x_pixel (gamma s) (lambda_1 s) (lambda_2 s) ?dLdx (dIdx C) (smoothness_map C)
           (Psi_x s) y)))"
    by (intro total_for_loop total_Shan_Psi_x_pixel[where w = w and h = h] dL c)
  then obtain mx scan1 where px: "for_loop 0 h (\<lambda>y. for_loop 0 w
        (Shan_Psi_x_pixel (gamma s) (lambda_1 s) (lambda_2 s) ?dLdx (dIdx C) (smoothness_map C)
           (Psi_x s) y)) (data (Psi_x s), ?scan) = Some (mx, scan1)"
    unfolding total_def by (metis surj_pair)
  have "total (for_loop 0 h (\<lambda>y. for_loop 0 w
        (Shan_Psi_y_pixel (gamma s) (lambda_1 s) (lambda_2 s) ?dLdy (dIdy C) (smoothness_map C)
           (Psi_y s) y)))"
    by (intro total_for_loop total_Shan_Psi_y_pixel[where w = w and h = h] dL c)
  then obtain my scan2 where py: "for_loop 0 h (\<lambda>y. for_loop 0 w
        (Shan_Psi_y_pixel (gamma s) (lambda_1 s) (lambda_2 s) ?dLdy (dIdy C) (smoothness_map C)
           (Psi_y s) y)) (data (Psi_y s), scan1) = Some (my, scan2)"
    unfolding total_def by (metis surj_pair)
  let ?FPx = "FFT_apply E ((Psi_x s)\<lparr>data := mx\<rparr>)"
  let ?FPy = "FFT_apply E ((Psi_y s)\<lparr>data := my\<rparr>)"
  have FP: "covers ?FPx w h 2" "covers ?FPy w h 2"
    using c(9,10) by (auto simp: covers_def has_shape_def)
  have "total (for_loop 0 h (\<lambda>y. for_loop 0 w
        (Shan_append_pixel (gamma s) (FDeriv (bases C) 1) (FDeriv (bases C) 3) ?FPx ?FPy
           (denominator_base (bases C)) (numerator_base (bases C)) y)))"
    by (intro total_for_loop total_Shan_append_pixel[where w = w and h = h] FP c)
  then obtain d n where ap: "for_loop 0 h (\<lambda>y. for_loop 0 w
        (Shan_append_pixel (gamma s) (FDeriv (bases C) 1) (FDeriv (bases C) 3) ?FPx ?FPy
           (denominator_base (bases C)) (numerator_base (bases C)) y))
        (data (denominator_base (bases C)), data (numerator_base (bases C))) = Some (d, n)"
    unfolding total_def by (metis surj_pair)
  obtain s' where s': "Shan_round E C i s = Some s'"
    by (simp add: Shan_round_def Let_def B px py ap)
  have "shan_shapes w h C s'"
    using s' sh
    by (auto simp: Shan_round_def Let_def B px py ap shan_shapes_def covers_def has_shape_def)
  then show ?thesis using s' by blast
qed

lemma Shan_taps_in_3x3:
  "\<forall>p \<in> set (Shan_taps i). 0 \<le> fst (fst p) \<and> fst (fst p) < 3 \<and> 0 \<le> snd (fst p) \<and> snd (fst p) < 3"
  by (auto simp: Shan_taps_def)

lemma Shan_filter_step_total:
  assumes wh: "3 \<le> w" "3 \<le> h" and B: "width BL = w" "height BL = h"
  shows "\<exists>bs'. Shan_filter_step E BL KL FK2 i bs = Some bs'
     \<and> has_shape (FDeriv bs' i) w h 1 2 \<and> (\<forall>j. j \<noteq> i \<longrightarrow> FDeriv bs' j = FDeriv bs j)
     \<and> (has_shape (denominator_base bs) w h 1 2 \<longrightarrow> has_shape (denominator_base bs') w h 1 2)
     \<and> (has_shape (numerator_base bs) w h 1 2 \<longrightarrow> has_shape (numerator_base bs') w h 1 2)"
proof -
  have "\<forall>p \<in> set (Shan_taps i). 0 \<le> fst (fst p) \<and> fst (fst p) < w \<and> 0 \<le> snd (fst p) \<and> snd (fst p) < h"
    using Shan_taps_in_3x3[of i] wh by fastforce
  then obtain m where m: "assign_taps (Image w h 1 2) (Shan_taps i) (data (Image w h 1 2)) = Some m"
    using assign_taps_total[of "Image w h 1 2" w h "Shan_taps i"] by (auto simp: has_shape_def)
  show ?thesis
    by (simp add: Shan_filter_step_def Let_def B m has_shape_def)
qed

lemma Shan_filter_loop_total:
  assumes wh: "3 \<le> w" "3 \<le> h" and B: "width BL = w" "height BL = h"
    and bs: "has_shape (denominator_base bs) w h 1 2" "has_shape (numerator_base bs) w h 1 2"
  shows "\<exists>bs'. for_loop 0 (5 + 1) (Shan_filter_step E BL KL FK2) bs = Some bs'
     \<and> has_shape (denominator_base bs') w h 1 2 \<and> has_shape (numerator_base bs') w h 1 2
     \<and> has_shape (FDeriv bs' 1) w h 1 2 \<and> has_shape (FDeriv bs' 3) w h 1 2"
proof -
  let ?P = "\<lambda>i b. has_shape (denominator_base b) w h 1 2 \<and> has_shape (numerator_base b) w h 1 2
      \<and> (\<forall>j. 0 \<le> j \<and> j < i \<longrightarrow> has_shape (FDeriv b j) w h 1 2)"
  have "\<exists>bs'. for_loop 0 (5 + 1) (Shan_filter_step E BL KL FK2) bs = Some bs' \<and> ?P (5 + 1) bs'"
  proof (rule for_loop_steps[where P = ?P])
    show "(0::int) \<le> 5 + 1" by simp
    show "?P 0 bs" using bs by auto
  next
    fix i :: int and u :: shan_bases
    assume i: "0 \<le> i" "i < 5 + 1" and P: "?P i u"
    obtain v where v: "Shan_filter_step E BL KL FK2 i u = Some v"
      "has_shape (FDeriv v i) w h 1 2" "\<forall>j. j \<noteq> i \<longrightarrow> FDeriv v j = FDeriv u j"
      "has_shape (denominator_base u) w h 1 2 \<longrightarrow> has_shape (denominator_base v) w h 1 2"
      "has_shape (numerator_base u) w h 1 2 \<longrightarrow> has_shape (numerator_base v) w h 1 2"
      using Shan_filter_step_total[OF wh B, of E KL FK2 i u] by blast
    have "?P (i + 1) v"
    proof (intro conjI allI impI)
      show "has_shape (denominator_base v) w h 1 2" using v(4) P by simp
      show "has_shape (numerator_base v) w h 1 2" using v(5) P by simp
      fix j assume j: "0 \<le> j \<and> j < i + 1"
      show "has_shape (FDeriv v j) w h 1 2"
      proof (cases "j = i")
        case True
        then show ?thesis using v(2) by simp
      next
        case False
        then have "j < i" using j by simp
        then show ?thesis using v(3) False P j by simp
      qed
    qed
    then show "\<exists>v. Shan_filter_step E BL KL FK2 i u = Some v \<and> ?P (i + 1) v"
      using v(1) by blast
  qed
  then show ?thesis by auto
qed

lemma Shan_prepare_total:
  assumes wh: "3 \<le> width B0" "3 \<le> height B0" and f: "1 \<le> frames B0"
    and g: "1 \<le> channels Bgray"
  shows "\<exists>C s. Shan_prepare E B K Bgray B0 = Some (C, s)
     \<and> shan_shapes (width B0) (height B0) C s
     \<and> lambda_1 s = 1 / 10 \<and> lambda_2 s = 15 \<and> gamma s = 2 \<and> saved s = []"
proof -
  let ?w = "width B0" and ?h = "height B0"
  let ?Kf = "FFT_apply E (EnlargeKernel E K ?w ?h)"
  let ?KL = "ComplexConjugate_apply ?Kf"
  let ?FK2 = "ComplexMultiply_apply ?Kf ?KL False"
  let ?BL = "FFT_apply E (RealComplex_apply B0)"
  let ?bs0 = "\<lparr>FDeriv = (\<lambda>i. Image 0 0 0 0), denominator_base = Image ?w ?h 1 2,
             numerator_base = Image ?w ?h 1 2\<rparr>"
  obtain bs where loop: "for_loop 0 (5 + 1) (Shan_filter_step E ?BL ?KL ?FK2) ?bs0 = Some bs"
    and sh: "has_shape (denominator_base bs) ?w ?h 1 2" "has_shape (numerator_base bs) ?w ?h 1 2"
      "has_shape (FDeriv bs 1) ?w ?h 1 2" "has_shape (FDeriv bs 3) ?w ?h 1 2"
    using Shan_filter_loop_total[OF wh, of ?BL ?bs0 E ?KL ?FK2] by (auto simp: has_shape_def)
  have loop': "for_loop 0 6 (Shan_filter_step E ?BL ?KL ?FK2) ?bs0 = Some bs"
    using loop by simp
  have "\<exists>C s. Shan_prepare E B K Bgray B0 = Some (C, s)"
    using loop' by (simp add: Shan_prepare_def Shan_initial_L_def Let_def)
  then obtain C s where cs: "Shan_prepare E B K Bgray B0 = Some (C, s)" by blast
  have "shan_shapes ?w ?h C s \<and> lambda_1 s = 1 / 10 \<and> lambda_2 s = 15 \<and> gamma s = 2 \<and> saved s = []"
    using cs sh f g
    by (auto simp: Shan_prepare_def Shan_initial_L_def Let_def loop' shan_shapes_def covers_def has_shape_def
        Shan_smoothness_map_def)
  then show ?thesis using cs by blast
qed

lemma Shan_prepare_schedule:
  assumes "Shan_prepare E B K Bgray B0 = Some (C, s)"
  shows "lambda_1 s = 1 / 10" "lambda_2 s = 15" "gamma s = 2" "saved s = []"
    "channels (L s) = 1" "frames (L s) = 1"
    "frames (numerator_base (bases C)) = 1 \<or> True"
  using assms
  by (auto simp: Shan_prepare_def Shan_initial_L_def Let_def split: bind_splits)

lemma upto_1_2: "[1..2::int] = [1, 2]"
  by (simp add: upto.simps)

lemma Shan_rounds_Some:
  assumes "Shan_rounds E C s0 = (Some s2, fs)"
  obtains s1 where "Shan_round E C 1 s0 = Some s1" "Shan_round E C 2 s1 = Some s2" "fs = saved s2"
  using assms
  by (auto simp: Shan_rounds_def MAX_ITERATION_def upto_1_2 split: option.splits)

lemma Shan_rounds_total:
  assumes "shan_shapes w h C s0"
  obtains s1 s2 where "Shan_round E C 1 s0 = Some s1" "Shan_round E C 2 s1 = Some s2"
    "Shan_rounds E C s0 = (Some s2, saved s2)"
proof -
  obtain s1 where s1: "Shan_round E C 1 s0 = Some s1" "shan_shapes w h C s1"
    using Shan_round_total[OF assms] by blast
  obtain s2 where s2: "Shan_round E C 2 s1 = Some s2"
    using Shan_round_total[OF s1(2)] by blast
  have "Shan_rounds E C s0 = (Some s2, saved s2)"
    by (simp add: Shan_rounds_def MAX_ITERATION_def upto_1_2 s1 s2)
  then show ?thesis using that s1 s2 by blast
qed


lemma applyShan2008_returns:
  assumes valid: "channels K = 1 \<and> frames K = 1 \<and> frames B = 1 \<and> width K mod 2 = 1
      \<and> height K mod 2 = 1"
    and big: "3 \<le> width B \<and> 3 \<le> height B \<and> 1 \<le> channels B"
  obtains B0 C s0 s1 s2 where
    "applyPadding E (if channels B = 3 then ColorConvert_apply_rgb_y E B else B) = Inr B0"
    "channels B0 = (if channels B = 3 then 1 else channels B)"
    "Shan_prepare E B K (if channels B = 3 then ColorConvert_apply_rgb_y E B else B) B0 = Some (C, s0)"
    "Shan_round E C 1 s0 = Some s1" "Shan_round E C 2 s1 = Some s2"
    "Shan_rounds E C s0 = (Some s2, saved s2)"
    "applyShan2008 E B K
       = (Inr (Crop_apply4 E (L s2) ((width B0 - width B) div 2) ((height B0 - height B) div 2)
                 (width B) (height B)), saved s2)"
proof -
  let ?Bgray = "if channels B = 3 then ColorConvert_apply_rgb_y E B else B"
  have g: "3 \<le> width ?Bgray" "3 \<le> height ?Bgray" "1 \<le> channels ?Bgray" "frames ?Bgray = 1"
    using big valid by auto
  obtain B0 where B0: "applyPadding E ?Bgray = Inr B0"
    using applyPadding_total[of ?Bgray E] g by auto
  have sh: "width B0 = width ?Bgray + x_padding_of ?Bgray"
    "height B0 = height ?Bgray + y_padding_of ?Bgray" "frames B0 = frames ?Bgray"
    "channels B0 = channels ?Bgray"
    using applyPadding_shape[OF B0] by auto
  have p: "0 \<le> x_padding_of ?Bgray" "0 \<le> y_padding_of ?Bgray"
    using pad_ctx_canvas[of ?Bgray E] g by (auto simp: pad_ctx_def)
  have wh: "3 \<le> width B0" "3 \<le> height B0" "1 \<le> frames B0"
    using sh p g by auto
  obtain C s0 where prep: "Shan_prepare E B K ?Bgray B0 = Some (C, s0)"
    and shapes: "shan_shapes (width B0) (height B0) C s0"
    using Shan_prepare_total[OF wh g(3), of E B K] by blast
  obtain s1 s2 where r: "Shan_round E C 1 s0 = Some s1" "Shan_round E C 2 s1 = Some s2"
    "Shan_rounds E C s0 = (Some s2, saved s2)"
    using Shan_rounds_total[OF shapes] by blast
  have run: "applyShan2008 E B K
       = (Inr (Crop_apply4 E (L s2) ((width B0 - width B) div 2) ((height B0 - height B) div 2)
                 (width B) (height B)), saved s2)"
    using valid B0 prep r(3) by (simp add: applyShan2008_def Let_def)
  show ?thesis
    by (rule that[OF B0 _ prep r run]) (use sh in auto)
qed



text \<open>
  C6. The schedule starts at \<open>lambda_1 = 0.1\<close>, \<open>lambda_2 = 15\<close>, \<open>gamma = 2\<close>; there
  are \<open>MAX_ITERATION = 2\<close> rounds; every round that completes divides \<open>lambda_1\<close> by 1.2
  and \<open>lambda_2\<close> by 1.5 and doubles \<open>gamma\<close>. A run that completes is round 1 followed by
  round 2 (writing \<open>output01.tmp\<close> and \<open>output02.tmp\<close>), the values after the rounds are
  \<open>(1/12, 10, 4)\<close> and \<open>(5/72, 20/3, 8)\<close>, within \<open>0.0001\<close> of 0.0833 and 0.0694 and within
  \<open>0.01\<close> of 6.67; \<open>lambda_1\<close> and \<open>lambda_2\<close> strictly decrease and \<open>gamma\<close> strictly
  increases. For a valid input of width and height at least 3 the run does complete: the
  padding, the preparation and both rounds return, and so does the solver.
\<close>

theorem Shan_schedule:
  "MAX_ITERATION = 2
   \<and> (\<forall>C s. Shan_prepare E B K Bgray B0 = Some (C, s) \<longrightarrow>
         lambda_1 s = 1 / 10 \<and> lambda_2 s = 15 \<and> gamma s = 2)
   \<and> (\<forall>C i s s'. Shan_round E C i s = Some s' \<longrightarrow>
         lambda_1 s' = lambda_1 s / (12 / 10) \<and> lambda_2 s' = lambda_2 s / (15 / 10)
         \<and> gamma s' = gamma s * 2)
   \<and> (\<forall>C s0 s2 fs. Shan_prepare E B K Bgray B0 = Some (C, s0)
          \<and> Shan_rounds E C s0 = (Some s2, fs) \<longrightarrow>
        (\<exists>s1. Shan_round E C 1 s0 = Some s1 \<and> Shan_round E C 2 s1 = Some s2
           \<and> map fst fs = [''output01.tmp'', ''output02.tmp'']
           \<and> lambda_1 s1 = 1 / 12 \<and> lambda_2 s1 = 10 \<and> gamma s1 = 4
           \<and> lambda_1 s2 = 5 / 72 \<and> lambda_2 s2 = 20 / 3 \<and> gamma s2 = 8
           \<and> lambda_1 s2 < lambda_1 s1 \<and> lambda_1 s1 < lambda_1 s0
           \<and> lambda_2 s2 < lambda_2 s1 \<and> lambda_2 s1 < lambda_2 s0
           \<and> gamma s0 < gamma s1 \<and> gamma s1 < gamma s2
           \<and> \<bar>lambda_1 s1 - 833 / 10000\<bar> < 1 / 10000
           \<and> \<bar>lambda_1 s2 - 694 / 10000\<bar> < 1 / 10000
           \<and> \<bar>lambda_2 s2 - 667 / 100\<bar> < 1 / 100))
   \<and> (channels K = 1 \<and> frames K = 1 \<and> frames B = 1 \<and> width K mod 2 = 1 \<and> height K mod 2 = 1
        \<and> 3 \<le> width B \<and> 3 \<le> height B \<and> 1 \<le> channels B \<longrightarrow>
      (\<exists>P C s0 s2 R.
          applyPadding E (if channels B = 3 then ColorConvert_apply_rgb_y E B else B) = Inr P
        \<and> Shan_prepare E B K (if channels B = 3 then ColorConvert_apply_rgb_y E B else B) P
            = Some (C, s0)
        \<and> Shan_rounds E C s0 = (Some s2, saved s2)
        \<and> applyShan2008 E B K = (Inr R, saved s2)))"
proof (intro conjI allI impI)
  show "MAX_ITERATION = 2" by (simp add: MAX_ITERATION_def)
next
  fix C s
  assume p: "Shan_prepare E B K Bgray B0 = Some (C, s)"
  show "lambda_1 s = 1 / 10" "lambda_2 s = 15" "gamma s = 2"
    using Shan_prepare_schedule(1-3)[OF p] by simp_all
next
  fix C i s s'
  assume r: "Shan_round E C i s = Some s'"
  show "lambda_1 s' = lambda_1 s / (12 / 10)" "lambda_2 s' = lambda_2 s / (15 / 10)"
    "gamma s' = gamma s * 2"
    using Shan_round_schedule(1-3)[OF r] by simp_all
next
  fix C s0 s2 fs
  assume a: "Shan_prepare E B K Bgray B0 = Some (C, s0) \<and> Shan_rounds E C s0 = (Some s2, fs)"
  obtain s1 where s: "Shan_round E C 1 s0 = Some s1" "Shan_round E C 2 s1 = Some s2"
    "fs = saved s2"
    using a by (auto elim: Shan_rounds_Some)
  have v0: "lambda_1 s0 = 1 / 10" "lambda_2 s0 = 15" "gamma s0 = 2" "saved s0 = []"
    using Shan_prepare_schedule(1-4)[of E B K Bgray B0 C s0] a by simp_all
  have v1: "lambda_1 s1 = 1 / 12" "lambda_2 s1 = 10" "gamma s1 = 4"
    using Shan_round_schedule(1-3)[OF s(1)] v0 by simp_all
  have v2: "lambda_1 s2 = 5 / 72" "lambda_2 s2 = 20 / 3" "gamma s2 = 8"
    using Shan_round_schedule(1-3)[OF s(2)] v1 by simp_all
  have f: "map fst fs = [''output01.tmp'', ''output02.tmp'']"
    using Shan_round_schedule(7)[OF s(1)] Shan_round_schedule(7)[OF s(2)] v0(4) s(3)
    by (simp add: output_filename_def digit_def)
  show "\<exists>s1. Shan_round E C 1 s0 = Some s1 \<and> Shan_round E C 2 s1 = Some s2
           \<and> map fst fs = [''output01.tmp'', ''output02.tmp'']
           \<and> lambda_1 s1 = 1 / 12 \<and> lambda_2 s1 = 10 \<and> gamma s1 = 4
           \<and> lambda_1 s2 = 5 / 72 \<and> lambda_2 s2 = 20 / 3 \<and> gamma s2 = 8
           \<and> lambda_1 s2 < lambda_1 s1 \<and> lambda_1 s1 < lambda_1 s0
           \<and> lambda_2 s2 < lambda_2 s1 \<and> lambda_2 s1 < lambda_2 s0
           \<and> gamma s0 < gamma s1 \<and> gamma s1 < gamma s2
           \<and> \<bar>lambda_1 s1 - 833 / 10000\<bar> < 1 / 10000
           \<and> \<bar>lambda_1 s2 - 694 / 10000\<bar> < 1 / 10000
           \<and> \<bar>lambda_2 s2 - 667 / 100\<bar> < 1 / 100"
    using s(1,2) f by (intro exI[of _ s1]) (simp add: v0 v1 v2)
next
  assume a: "channels K = 1 \<and> frames K = 1 \<and> frames B = 1 \<and> width K mod 2 = 1
      \<and> height K mod 2 = 1 \<and> 3 \<le> width B \<and> 3 \<le> height B \<and> 1 \<le> channels B"
  have valid: "channels K = 1 \<and> frames K = 1 \<and> frames B = 1 \<and> width K mod 2 = 1
      \<and> height K mod 2 = 1"
    and big: "3 \<le> width B \<and> 3 \<le> height B \<and> 1 \<le> channels B"
    using a by simp_all
  show "\<exists>P C s0 s2 R.
          applyPadding E (if channels B = 3 then ColorConvert_apply_rgb_y E B else B) = Inr P
        \<and> Shan_prepare E B K (if channels B = 3 then ColorConvert_apply_rgb_y E B else B) P
            = Some (C, s0)
        \<and> Shan_rounds E C s0 = (Some s2, saved s2)
        \<and> applyShan2008 E B K = (Inr R, saved s2)"
  proof (rule applyShan2008_returns[OF valid big, of E])
    fix P C s0 s1 s2
    assume "applyPadding E (if channels B = 3 then ColorConvert_apply_rgb_y E B else B) = Inr P"
      and "Shan_prepare E B K (if channels B = 3 then ColorConvert_apply_rgb_y E B else B) P
             = Some (C, s0)"
      and "Shan_rounds E C s0 = (Some s2, saved s2)"
      and "applyShan2008 E B K
       = (Inr (Crop_apply4 E (L s2) ((width P - width B) div 2) ((height P - height B) div 2)
                 (width B) (height B)), saved s2)"
    then show ?thesis by blast
  qed
qed

theorem Shan_schedule_witness:
  "\<exists>P C s0 s2 fs.
      Shan_prepare E_id B_3x3_rgb K_1x1 (ColorConvert_apply_rgb_y E_id B_3x3_rgb) P = Some (C, s0)
    \<and> Shan_rounds E_id C s0 = (Some s2, fs)
    \<and> map fst fs = [''output01.tmp'', ''output02.tmp'']
    \<and> lambda_1 s0 = 1 / 10 \<and> lambda_2 s0 = 15 \<and> gamma s0 = 2
    \<and> lambda_1 s2 = 5 / 72 \<and> lambda_2 s2 = 20 / 3 \<and> gamma s2 = 8"
proof -
  have v: "channels K_1x1 = 1 \<and> frames K_1x1 = 1 \<and> frames B_3x3_rgb = 1
      \<and> width K_1x1 mod 2 = 1 \<and> height K_1x1 mod 2 = 1
      \<and> 3 \<le> width B_3x3_rgb \<and> 3 \<le> height B_3x3_rgb \<and> 1 \<le> channels B_3x3_rgb"
    by (simp add: K_1x1_def B_3x3_rgb_def)
  have c: "channels B_3x3_rgb = 3" by (simp add: B_3x3_rgb_def)
  note run = Shan_schedule[of E_id B_3x3_rgb K_1x1 "ColorConvert_apply_rgb_y E_id B_3x3_rgb"]
  obtain P C s0 s2 where
    prep: "Shan_prepare E_id B_3x3_rgb K_1x1 (ColorConvert_apply_rgb_y E_id B_3x3_rgb) P
             = Some (C, s0)"
    and rounds: "Shan_rounds E_id C s0 = (Some s2, saved s2)"
    using run v c by (metis (full_types))
  show ?thesis
    using run[of P] prep rounds
    by (intro exI[of _ P] exI[of _ C] exI[of _ s0] exI[of _ s2] exI[of _ "saved s2"]) auto
qed
section \<open>Proofs: the per-pixel Psi update\<close>

subsection \<open>Facts about one scan\<close>

lemma Psi_y_candidates_eq: "Psi_y_candidates = Psi_x_candidates"
  by (intro ext) (simp add: Psi_y_candidates_def Psi_x_candidates_def)

lemma offer_keeps_on_tie:
  "fscore_valid s \<Longrightarrow> fscore s \<le> tmpscore \<Longrightarrow> offer (feasible, tmp, tmpscore) s = s"
  by (simp add: offer_def accepts_def)

lemma offer_takes_strictly_lower:
  "fscore_valid s \<Longrightarrow> tmpscore < fscore s \<Longrightarrow>
   offer (True, tmp, tmpscore) s = \<lparr>fscore = tmpscore, ans = tmp, fscore_valid = True\<rparr>"
  by (simp add: offer_def accepts_def)

lemma offer_first_feasible:
  "\<not> fscore_valid s \<Longrightarrow>
   offer (True, tmp, tmpscore) s = \<lparr>fscore = tmpscore, ans = tmp, fscore_valid = True\<rparr>"
  by (simp add: offer_def accepts_def)

lemma offer_infeasible: "offer (False, tmp, tmpscore) s = s"
  by (simp add: offer_def accepts_def)



text \<open>
  The scan at a pixel with \<open>dLdx = dIdx = 0\<close> and smoothness map 0 (and likewise for the
  y field), under weights with \<open>0 < gamma\<close>, \<open>0 \<le> lambda_2\<close>, \<open>0 < lambda_1\<close> and
  \<open>lt * (gamma + lambda_2) < lambda_1 * k\<close> (both rounds of the schedule satisfy this): the
  first three candidates are infeasible, the zero candidate is accepted with score 0, the
  candidate \<open>lt\<close> has a strictly positive score and does not replace it, but the candidate
  \<open>-lt\<close> has the strictly negative score \<open>gamma * lt * lt - lambda_1 * (k * lt)\<close> and
  does. A later candidate never replaces an earlier one of equal or lower score.
\<close>

lemma Psi_zero_pixel_scan:
  assumes "0 < g" and "0 \<le> l2" and "0 < l1"
    and "prior_lt * (g + l2) < l1 * prior_k"
  shows "psi_scan_pixel (take 4 (Psi_x_candidates g l1 l2 0 0 0)) s0
           = \<lparr>fscore = 0, ans = 0, fscore_valid = True\<rparr>
       \<and> snd (snd (Psi_x_candidates g l1 l2 0 0 0 ! 4)) > 0
       \<and> snd (snd (Psi_x_candidates g l1 l2 0 0 0 ! 5)) < 0
       \<and> selected (Psi_x_candidates g l1 l2 0 0 0) s0 = Some 5
       \<and> ans (psi_scan_pixel (Psi_x_candidates g l1 l2 0 0 0) s0) = - prior_lt
       \<and> ans (psi_scan_pixel (Psi_y_candidates g l1 l2 0 0 0) s0) = - prior_lt
       \<and> (\<forall>c s. fscore_valid s \<and> fscore s \<le> snd (snd c) \<longrightarrow> offer c s = s)"
proof -
  have tie: "\<forall>c s. fscore_valid s \<and> fscore s \<le> snd (snd c) \<longrightarrow> offer c s = s"
    by (auto simp: offer_def accepts_def)
  have lt: "0 < prior_lt" by (simp add: prior_lt_def)
  have k: "0 < prior_k" by (simp add: prior_k_def)
  have gl: "0 < g + l2" using assms by simp
  have t2: "\<not> (l1 * prior_k / (g + l2) \<le> prior_lt)"
    using assms(4) gl by (simp add: pos_divide_le_eq not_le mult.commute)
  have t3: "\<not> (0 \<le> - (l1 * prior_k) / (g + l2))"
    using assms(3) k gl by (simp add: zero_le_divide_iff not_le mult_pos_pos)
  have "g * prior_lt * prior_lt < l1 * prior_k * prior_lt"
  proof -
    have "g * prior_lt \<le> prior_lt * (g + l2)"
      using assms(2) lt by (simp add: algebra_simps)
    then have "g * prior_lt < l1 * prior_k" using assms(4) by linarith
    then show ?thesis using lt by simp
  qed
  then have s6: "g * prior_lt * prior_lt - l1 * (prior_k * prior_lt) < 0"
    by (simp add: algebra_simps)
  have s5: "0 < g * prior_lt * prior_lt + l1 * (prior_k * prior_lt)"
    using assms(1,3) lt k by (simp add: add_pos_pos)
  show ?thesis
    using t2 t3 s5 s6 lt tie
    by (simp add: Psi_y_candidates_eq Psi_x_candidates_def psi_scan_pixel_def selected_def
        offer_def accepts_def Let_def)
qed

text \<open>
  C2, the code at the pixel of the claim. In the first round (\<open>gamma = 2\<close>,
  \<open>lambda_1 = 0.1\<close>, \<open>lambda_2 = 15\<close>), at a pixel with \<open>dLdx = dIdx = 0\<close> and smoothness
  map 0, the scan of the x field and the scan of the y field both store \<open>-lt\<close>, which is not
  0. The block of \<open>lt\<close> (line 229) scores \<open>gamma * lt * lt + lambda_1 * k * lt\<close>, above the
  0 of the zero candidate; its sibling, the block of \<open>-lt\<close> (line 237), scores
  \<open>gamma * lt * lt - lambda_1 * k * lt\<close>, below 0, and is the block whose assignment is the
  last one executed.
\<close>

theorem Psi_zero_pixel_round_1:
  "ans (psi_scan_pixel (Psi_x_candidates 2 (1/10) 15 0 0 0)
          \<lparr>fscore = 0, ans = 0, fscore_valid = False\<rparr>) = - prior_lt
   \<and> ans (psi_scan_pixel (Psi_y_candidates 2 (1/10) 15 0 0 0)
          \<lparr>fscore = 0, ans = 0, fscore_valid = False\<rparr>) = - prior_lt
   \<and> - prior_lt \<noteq> 0
   \<and> Psi_x_candidates 2 (1/10) 15 0 0 0 ! 3 = (True, 0, 0)
   \<and> Psi_x_candidates 2 (1/10) 15 0 0 0 ! 4
       = (True, prior_lt, 2 * prior_lt * prior_lt + 1/10 * (prior_k * prior_lt))
   \<and> Psi_x_candidates 2 (1/10) 15 0 0 0 ! 5
       = (True, - prior_lt, 2 * prior_lt * prior_lt - 1/10 * (prior_k * prior_lt))
   \<and> 2 * prior_lt * prior_lt - 1/10 * (prior_k * prior_lt) < 0
   \<and> selected (Psi_x_candidates 2 (1/10) 15 0 0 0)
        \<lparr>fscore = 0, ans = 0, fscore_valid = False\<rparr> = Some 5"
  by (simp add: Psi_y_candidates_def Psi_x_candidates_def psi_scan_pixel_def selected_def
      offer_def accepts_def Let_def prior_lt_def prior_k_def prior_a_def prior_b_def)





section \<open>Proofs: both solvers\<close>

text \<open>
  C4. A kernel of even width or even height, a kernel with a channel or frame count other
  than 1, or a blurred image with a frame count other than 1: both solvers end in the
  precondition error, whatever the samples and the services are, and have written no
  checkpoint file.
\<close>

theorem solvers_reject_before_any_work:
  assumes "\<not> (width K mod 2 = 1 \<and> height K mod 2 = 1)
           \<or> \<not> (channels K = 1 \<and> frames K = 1) \<or> frames B \<noteq> 1"
  shows "applyCho2009 E B K = (Inl PreconditionError, [])
       \<and> applyShan2008 E B K = (Inl PreconditionError, [])"
  using assms by (auto simp: applyCho2009_def applyShan2008_def)

theorem solvers_reject_before_any_work_witness:
  "applyCho2009 E_id B_3x3 K_even = (Inl PreconditionError, [])
   \<and> applyShan2008 E_id B_3x3 K_even = (Inl PreconditionError, [])"
  using solvers_reject_before_any_work[of K_even B_3x3 E_id]
  by (simp add: K_even_def)

text \<open>
  C9. The two solvers build the same filter bank: for every index the taps (offset and
  coefficient, in the order they are assigned) and the weight are equal, so the stencils
  assigned on a canvas of the same size are equal; the weights are 50, 25, 12.5, 25, 12.5,
  12.5 and the stencils are the identity, \<open>dx = [-1, 1]\<close>, \<open>dxx = [1, -2, 1]\<close>, \<open>dy\<close>,
  \<open>dyy\<close> and \<open>dxy\<close>.
\<close>

theorem filter_banks_identical:
  "Shan_taps = Cho_taps \<and> Shan_w = Cho_w
   \<and> (\<forall>w h i m. assign_taps (Image w h 1 2) (Shan_taps i) m
                 = assign_taps (Image w h 1 2) (Cho_taps i) m)
   \<and> map Cho_w [0, 1, 2, 3, 4, 5] = [50, 25, 25 / 2, 25, 25 / 2, 25 / 2]
   \<and> map Cho_taps [0, 1, 2, 3, 4, 5] =
       [ [((0, 0), 1)],
         [((0, 0), - 1), ((1, 0), 1)],
         [((0, 0), 1), ((1, 0), - 2), ((2, 0), 1)],
         [((0, 0), - 1), ((0, 1), 1)],
         [((0, 0), 1), ((0, 1), - 2), ((0, 2), 1)],
         [((0, 0), 1), ((1, 0), - 1), ((0, 1), - 1), ((1, 1), 1)] ]"
proof -
  have t: "Shan_taps = Cho_taps" by (intro ext) (simp add: Shan_taps_def Cho_taps_def)
  have w: "Shan_w = Cho_w" by (intro ext) (simp add: Shan_w_def Cho_w_def)
  show ?thesis
    unfolding t w by (simp add: Cho_w_def Cho_taps_def)
qed


end
